theory Spec2Isabelle
  imports Complex_Main "HOL-Library.Log_Nat"
begin

section \<open>Tapo camera video downloader: the model\<close>

text \<open>
  A shallow embedding of \<^verbatim>\<open>src/main.py\<close>. Pure helpers are HOL functions; what the
  program reads from its surroundings (the local time zone, the streaming downloader,
  the camera's answers to delete requests) is a parameter collected in the record
  \<open>env\<close>; the file system is threaded explicitly; a Python \<^verbatim>\<open>raise\<close> is the left
  injection of a sum. Console decoration (headers, summaries, the ETA line) is not
  modelled; the progress lines of a transfer are, since the specification speaks of them.
\<close>

subsection \<open>Python values and exceptions\<close>

text \<open>
  The camera's answers reach the program decoded from JSON, so a mapping's keys are
  strings. A mapping is an association list in insertion order, the order in which
  \<^verbatim>\<open>dict.items()\<close> yields it.
\<close>

datatype pyval =
    PNone
  | PBool bool
  | PInt int
  | PFloat rat
  | PStr string
  | PList "pyval list"
  | PDict "(string \<times> pyval) list"

text \<open>
  What a \<^verbatim>\<open>raise\<close> carries, by the only distinction the program makes:
  \<open>Exception\<close> is an instance of Python's class \<^verbatim>\<open>Exception\<close>, which
  \<^verbatim>\<open>except Exception\<close> catches; \<open>BaseException\<close> is an instance of
  \<^verbatim>\<open>BaseException\<close> outside that class (\<^verbatim>\<open>KeyboardInterrupt\<close>, \<^verbatim>\<open>SystemExit\<close>,
  \<^verbatim>\<open>asyncio.CancelledError\<close>, \<^verbatim>\<open>GeneratorExit\<close>), which it does not.
\<close>

datatype raised = Exception string | BaseException string

subsection \<open>Strings and paths (POSIX)\<close>

type_synonym path = string

definition os_sep :: string where
  "os_sep = ''/''"

definition startswith :: "string \<Rightarrow> string \<Rightarrow> bool" where
  "startswith s p = (take (length p) s = p)"

definition endswith :: "string \<Rightarrow> string \<Rightarrow> bool" where
  "endswith s p = (length p \<le> length s \<and> drop (length s - length p) s = p)"

text \<open>\<^verbatim>\<open>posixpath.join\<close> of two components, and of three as \<open>get_date_folder\<close> calls it.\<close>

definition os_path_join :: "path \<Rightarrow> path \<Rightarrow> path" where
  "os_path_join a b =
     (if startswith b os_sep then b
      else if a = [] \<or> endswith a os_sep then a @ b
      else a @ os_sep @ b)"

definition os_path_join3 :: "path \<Rightarrow> path \<Rightarrow> path \<Rightarrow> path" where
  "os_path_join3 a b c = os_path_join (os_path_join a b) c"

definition digit :: "nat \<Rightarrow> char" where
  "digit n = ''0123456789'' ! n"

fun str_nat :: "nat \<Rightarrow> string" where
  "str_nat n = (if n < 10 then [digit n] else str_nat (n div 10) @ [digit (n mod 10)])"

declare str_nat.simps [simp del]

text \<open>\<^verbatim>\<open>str(i)\<close> and the f-string \<^verbatim>\<open>{i}\<close> of a Python int.\<close>

definition str_int :: "int \<Rightarrow> string" where
  "str_int i = (if i < 0 then CHR ''-'' # str_nat (nat (- i)) else str_nat (nat i))"

definition zfill :: "nat \<Rightarrow> string \<Rightarrow> string" where
  "zfill w s = replicate (w - length s) CHR ''0'' @ s"

subsection \<open>Local time: \<^verbatim>\<open>datetime.fromtimestamp\<close> and \<^verbatim>\<open>strftime\<close>\<close>

text \<open>
  The library's conversion, after CPython's \<^verbatim>\<open>_ord2ymd\<close> (proleptic Gregorian
  calendar, day 1 is 0001-01-01, the epoch is day 719163). The zone is a parameter:
  \<open>utcoff t\<close> is the offset of local time from UTC, in seconds, in force at \<open>t\<close>.
\<close>

record datetime =
  year :: int
  month :: int
  day :: int
  hour :: int
  minute :: int
  second :: int

definition DAYS_IN_MONTH :: "int list" where
  "DAYS_IN_MONTH = [-1, 31, 28, 31, 30, 31, 30, 31, 31, 30, 31, 30, 31]"

definition DAYS_BEFORE_MONTH :: "int list" where
  "DAYS_BEFORE_MONTH = [-1, 0, 31, 59, 90, 120, 151, 181, 212, 243, 273, 304, 334]"

definition month_and_day :: "int \<Rightarrow> bool \<Rightarrow> int \<times> int" where
  "month_and_day n leapyear =
    (let m = (n + 50) div 32;
         preceding = DAYS_BEFORE_MONTH ! nat m + (if m > 2 \<and> leapyear then 1 else 0)
     in if preceding > n
        then let m' = m - 1;
                 preceding' = preceding
                   - (DAYS_IN_MONTH ! nat m' + (if m' = 2 \<and> leapyear then 1 else 0))
             in (m', n - preceding' + 1)
        else (m, n - preceding + 1))"

definition ord2ymd :: "int \<Rightarrow> int \<times> int \<times> int" where
  "ord2ymd ordinal =
    (let n = ordinal - 1;
         n400 = n div 146097; n = n mod 146097;
         n100 = n div 36524; n = n mod 36524;
         n4 = n div 1461; n = n mod 1461;
         n1 = n div 365; n = n mod 365;
         y = n400 * 400 + 1 + n100 * 100 + n4 * 4 + n1
     in if n1 = 4 \<or> n100 = 4 then (y - 1, 12, 31)
        else
          let leapyear = (n1 = 3 \<and> (n4 \<noteq> 24 \<or> n100 = 3))
          in case month_and_day n leapyear of (m, d) \<Rightarrow> (y, m, d))"

definition MINYEAR :: int where
  "MINYEAR = 1"

definition MAXYEAR :: int where
  "MAXYEAR = 9999"

definition max_fold_seconds :: int where
  "max_fold_seconds = 24 * 3600"

text \<open>
  The platform's \<^verbatim>\<open>localtime\<close> (64-bit Linux): it fails where the year, counted from
  1900, does not fit the 32-bit field of the C structure, and the library raises
  \<^verbatim>\<open>OSError\<close>.
\<close>

definition localtime :: "(int \<Rightarrow> int) \<Rightarrow> int \<Rightarrow> raised + datetime" where
  "localtime utcoff u =
    (let local = u + utcoff u;
         secs = local mod 86400
     in case ord2ymd (719163 + local div 86400) of (y, m, d) \<Rightarrow>
          if y - 1900 < - 2147483648 \<or> 2147483647 < y - 1900 then Inl (Exception ''OSError'')
          else Inr \<lparr>year = y, month = m, day = d, hour = secs div 3600,
                    minute = secs mod 3600 div 60, second = secs mod 60\<rparr>)"

text \<open>
  The library's \<^verbatim>\<open>local\<close>: the local time at \<open>u\<close> as a count of seconds, which is
  \<open>u\<close> moved by the offset; a local year outside \<open>MINYEAR\<close> to \<open>MAXYEAR\<close> raises
  \<^verbatim>\<open>ValueError\<close>.
\<close>

definition local_seconds :: "(int \<Rightarrow> int) \<Rightarrow> int \<Rightarrow> raised + int" where
  "local_seconds utcoff u =
     (case localtime utcoff u of
        Inl e \<Rightarrow> Inl e
      | Inr tm \<Rightarrow>
          if year tm < MINYEAR \<or> MAXYEAR < year tm then Inl (Exception ''ValueError'')
          else Inr (u + utcoff u))"

text \<open>
  \<^verbatim>\<open>datetime.fromtimestamp\<close> without a zone. A timestamp outside the platform's 64-bit
  range raises \<^verbatim>\<open>OverflowError\<close>. The local time is converted and must lie in the
  years 1 to 9999; to find out whether it is the second pass of a repeated hour the
  library converts the time one day earlier as well, and the time moved by the change
  of offset when there is one, and raises when either is out of range: so the whole
  first local day of year 1 raises.
\<close>

definition fromtimestamp :: "(int \<Rightarrow> int) \<Rightarrow> int \<Rightarrow> raised + datetime" where
  "fromtimestamp utcoff timestamp =
    (if timestamp < - 9223372036854775808 \<or> 9223372036854775807 < timestamp
     then Inl (Exception ''OverflowError'')
     else
       case localtime utcoff timestamp of
         Inl e \<Rightarrow> Inl e
       | Inr dt \<Rightarrow>
           (case local_seconds utcoff timestamp of
              Inl e \<Rightarrow> Inl e
            | Inr result_seconds \<Rightarrow>
                (case local_seconds utcoff (timestamp - max_fold_seconds) of
                   Inl e \<Rightarrow> Inl e
                 | Inr probe_seconds \<Rightarrow>
                     let transition = result_seconds - probe_seconds - max_fold_seconds
                     in if transition < 0
                        then (case local_seconds utcoff (timestamp + transition) of
                                Inl e \<Rightarrow> Inl e
                              | Inr probe_seconds \<Rightarrow> Inr dt)
                        else Inr dt)))"

text \<open>
  \<^verbatim>\<open>strftime\<close> reads its format left to right. Of the six directives the program
  uses, \<^verbatim>\<open>%m\<close>, \<^verbatim>\<open>%d\<close>, \<^verbatim>\<open>%H\<close>, \<^verbatim>\<open>%M\<close> and \<^verbatim>\<open>%S\<close> print a decimal zero-padded to
  two digits; \<^verbatim>\<open>%Y\<close> prints the year as the C library of Linux does, in decimal
  and without padding. Any other directive is left as it stands.
\<close>

definition directive :: "datetime \<Rightarrow> char \<Rightarrow> string" where
  "directive dt c =
     (if c = CHR ''Y'' then str_int (year dt)
      else if c = CHR ''m'' then zfill 2 (str_int (month dt))
      else if c = CHR ''d'' then zfill 2 (str_int (day dt))
      else if c = CHR ''H'' then zfill 2 (str_int (hour dt))
      else if c = CHR ''M'' then zfill 2 (str_int (minute dt))
      else if c = CHR ''S'' then zfill 2 (str_int (second dt))
      else [CHR ''%'', c])"

fun strftime :: "datetime \<Rightarrow> string \<Rightarrow> string" where
  "strftime dt [] = []"
| "strftime dt [c] = [c]"
| "strftime dt (c # d # cs) =
     (if c = CHR ''%'' then directive dt d @ strftime dt cs else c # strftime dt (d # cs))"

subsection \<open>The path planner\<close>

text \<open>\<^verbatim>\<open>format_filename\<close> and \<^verbatim>\<open>get_date_folder\<close>, lines 32 to 43.\<close>

definition format_filename :: "(int \<Rightarrow> int) \<Rightarrow> int \<Rightarrow> raised + string" where
  "format_filename utcoff timestamp =
     (case fromtimestamp utcoff timestamp of
        Inl e \<Rightarrow> Inl e
      | Inr dt \<Rightarrow>
          let local_time = strftime dt ''%Y%m%d_%H%M%S'';
              unix_timestamp = timestamp
          in Inr (local_time @ ''-'' @ str_int unix_timestamp @ ''.mp4''))"

definition get_date_folder :: "(int \<Rightarrow> int) \<Rightarrow> int \<Rightarrow> raised + path" where
  "get_date_folder utcoff timestamp =
     (case fromtimestamp utcoff timestamp of
        Inl e \<Rightarrow> Inl e
      | Inr dt \<Rightarrow> Inr (os_path_join3 (strftime dt ''%Y'') (strftime dt ''%m'') (strftime dt ''%d'')))"

subsection \<open>The catalog: lenient extraction\<close>

text \<open>
  The operations of Python that \<^verbatim>\<open>extract_dates\<close> and \<^verbatim>\<open>extract_recordings\<close> apply to
  a decoded value, each with the exception it raises on a value of the wrong type.
\<close>

definition isinstance_list :: "pyval \<Rightarrow> bool" where
  "isinstance_list v = (case v of PList xs \<Rightarrow> True | _ \<Rightarrow> False)"

definition isinstance_dict :: "pyval \<Rightarrow> bool" where
  "isinstance_dict v = (case v of PDict kvs \<Rightarrow> True | _ \<Rightarrow> False)"

definition is_substring :: "string \<Rightarrow> string \<Rightarrow> bool" where
  "is_substring k s = list_ex (\<lambda>i. startswith (drop i s) k) [0..<Suc (length s)]"

text \<open>\<^verbatim>\<open>for item in v\<close>.\<close>

definition py_iter :: "pyval \<Rightarrow> raised + pyval list" where
  "py_iter v =
     (case v of
        PList xs \<Rightarrow> Inr xs
      | PDict kvs \<Rightarrow> Inr (map (\<lambda>kv. PStr (fst kv)) kvs)
      | PStr s \<Rightarrow> Inr (map (\<lambda>c. PStr [c]) s)
      | _ \<Rightarrow> Inl (Exception ''TypeError''))"

text \<open>\<^verbatim>\<open>v.items()\<close>.\<close>

definition py_items :: "pyval \<Rightarrow> raised + (string \<times> pyval) list" where
  "py_items v =
     (case v of
        PDict kvs \<Rightarrow> Inr kvs
      | _ \<Rightarrow> Inl (Exception ''AttributeError''))"

text \<open>\<^verbatim>\<open>k in v\<close> for a string \<open>k\<close>.\<close>

definition py_contains :: "string \<Rightarrow> pyval \<Rightarrow> raised + bool" where
  "py_contains k v =
     (case v of
        PDict kvs \<Rightarrow> Inr (map_of kvs k \<noteq> None)
      | PList xs \<Rightarrow> Inr (PStr k \<in> set xs)
      | PStr s \<Rightarrow> Inr (is_substring k s)
      | _ \<Rightarrow> Inl (Exception ''TypeError''))"

text \<open>\<^verbatim>\<open>v[k]\<close> for a string \<open>k\<close>.\<close>

definition py_getitem :: "pyval \<Rightarrow> string \<Rightarrow> raised + pyval" where
  "py_getitem v k =
     (case v of
        PDict kvs \<Rightarrow> (case map_of kvs k of Some x \<Rightarrow> Inr x | None \<Rightarrow> Inl (Exception ''KeyError''))
      | _ \<Rightarrow> Inl (Exception ''TypeError''))"

text \<open>
  \<^verbatim>\<open>extract_dates\<close>, lines 46 to 55: the inner loop over one item's entries, the outer
  loop over the items, and the function. The list \<open>dates\<close> is the accumulator the
  loops append to.
\<close>

fun extract_dates_entries :: "(string \<times> pyval) list \<Rightarrow> pyval list \<Rightarrow> raised + pyval list" where
  "extract_dates_entries [] dates = Inr dates"
| "extract_dates_entries ((key, v) # rest) dates =
     (if startswith key ''search_results_'' \<and> isinstance_dict v then
        (case py_contains ''date'' v of
           Inl e \<Rightarrow> Inl e
         | Inr has_date \<Rightarrow>
             if has_date then
               (case py_getitem v ''date'' of
                  Inl e \<Rightarrow> Inl e
                | Inr d \<Rightarrow> extract_dates_entries rest (dates @ [d]))
             else extract_dates_entries rest dates)
      else extract_dates_entries rest dates)"

fun extract_dates_items :: "pyval list \<Rightarrow> pyval list \<Rightarrow> raised + pyval list" where
  "extract_dates_items [] dates = Inr dates"
| "extract_dates_items (item # rest) dates =
     (if isinstance_dict item then
        (case py_items item of
           Inl e \<Rightarrow> Inl e
         | Inr kvs \<Rightarrow>
             (case extract_dates_entries kvs dates of
                Inl e \<Rightarrow> Inl e
              | Inr dates' \<Rightarrow> extract_dates_items rest dates'))
      else extract_dates_items rest dates)"

definition extract_dates :: "pyval \<Rightarrow> raised + pyval list" where
  "extract_dates dates_data =
     (if isinstance_list dates_data then
        (case py_iter dates_data of
           Inl e \<Rightarrow> Inl e
         | Inr items \<Rightarrow> extract_dates_items items [])
      else Inr [])"

text \<open>\<^verbatim>\<open>extract_recordings\<close>, lines 58 to 68, in the same three layers.\<close>

fun extract_recordings_entries ::
  "(string \<times> pyval) list \<Rightarrow> pyval list \<Rightarrow> raised + pyval list" where
  "extract_recordings_entries [] recordings = Inr recordings"
| "extract_recordings_entries ((key, v) # rest) recordings =
     (if startswith key ''search_video_results_'' \<and> isinstance_dict v then
        (case py_contains ''startTime'' v of
           Inl e \<Rightarrow> Inl e
         | Inr has_start \<Rightarrow>
             if has_start then
               (case py_contains ''endTime'' v of
                  Inl e \<Rightarrow> Inl e
                | Inr has_end \<Rightarrow>
                    if has_end then extract_recordings_entries rest (recordings @ [v])
                    else extract_recordings_entries rest recordings)
             else extract_recordings_entries rest recordings)
      else extract_recordings_entries rest recordings)"

fun extract_recordings_items :: "pyval list \<Rightarrow> pyval list \<Rightarrow> raised + pyval list" where
  "extract_recordings_items [] recordings = Inr recordings"
| "extract_recordings_items (item # rest) recordings =
     (if isinstance_dict item then
        (case py_items item of
           Inl e \<Rightarrow> Inl e
         | Inr kvs \<Rightarrow>
             (case extract_recordings_entries kvs recordings of
                Inl e \<Rightarrow> Inl e
              | Inr recordings' \<Rightarrow> extract_recordings_items rest recordings'))
      else extract_recordings_items rest recordings)"

definition extract_recordings :: "pyval \<Rightarrow> raised + pyval list" where
  "extract_recordings recordings_data =
     (if isinstance_list recordings_data then
        (case py_iter recordings_data of
           Inl e \<Rightarrow> Inl e
         | Inr items \<Rightarrow> extract_recordings_items items [])
      else Inr [])"

text \<open>
  What the specification says the extractors return, as list comprehensions. The
  matching entries of one mapping:
\<close>

definition date_fields :: "(string \<times> pyval) list \<Rightarrow> pyval list" where
  "date_fields kvs =
     concat (map (\<lambda>kv.
       if startswith (fst kv) ''search_results_'' then
         (case snd kv of
            PDict inner \<Rightarrow> (case map_of inner ''date'' of Some d \<Rightarrow> [d] | None \<Rightarrow> [])
          | _ \<Rightarrow> [])
       else []) kvs)"

definition recording_entries :: "(string \<times> pyval) list \<Rightarrow> pyval list" where
  "recording_entries kvs =
     concat (map (\<lambda>kv.
       if startswith (fst kv) ''search_video_results_'' then
         (case snd kv of
            PDict inner \<Rightarrow>
              if map_of inner ''startTime'' \<noteq> None \<and> map_of inner ''endTime'' \<noteq> None
              then [PDict inner] else []
          | _ \<Rightarrow> [])
       else []) kvs)"

definition mapping_entries :: "((string \<times> pyval) list \<Rightarrow> pyval list) \<Rightarrow> pyval \<Rightarrow> pyval list" where
  "mapping_entries f item = (case item of PDict kvs \<Rightarrow> f kvs | _ \<Rightarrow> [])"

text \<open>
  Read from a sequence of mappings only: every item that is a mapping contributes its
  matching entries, in order; a response that is not a sequence contributes nothing.
\<close>

definition sequence_entries :: "((string \<times> pyval) list \<Rightarrow> pyval list) \<Rightarrow> pyval \<Rightarrow> pyval list" where
  "sequence_entries f response =
     (case response of
        PList items \<Rightarrow> concat (map (mapping_entries f) items)
      | _ \<Rightarrow> [])"

text \<open>
  Read as the specification words it, for a response of any of the shapes it lists: a
  sequence of mappings as above, and a mapping-of-mappings by its own entries.
\<close>

definition any_shape_entries :: "((string \<times> pyval) list \<Rightarrow> pyval list) \<Rightarrow> pyval \<Rightarrow> pyval list" where
  "any_shape_entries f response =
     (case response of
        PList items \<Rightarrow> concat (map (mapping_entries f) items)
      | PDict kvs \<Rightarrow> f kvs
      | _ \<Rightarrow> [])"

subsection \<open>Progress events and their report lines\<close>

text \<open>
  A progress event's \<open>progress\<close> and \<open>total\<close> are Python numbers, an int or a float;
  the model keeps the exact value as a rational, and \<open>None\<close> for an absent key. Python's
  true division and float product are the exact results rounded to the nearest binary64
  number, ties to even (\<open>float_round\<close>); the model leaves out overflow, subnormal
  numbers, infinities and NaN. \<open>py_int\<close> is \<^verbatim>\<open>int(x)\<close>, truncation toward zero.
\<close>

definition round_half_even :: "rat \<Rightarrow> int" where
  "round_half_even q =
     (let f = \<lfloor>q\<rfloor>; r = q - of_int f
      in if r < 1 / 2 then f else if 1 / 2 < r then f + 1 else if even f then f else f + 1)"

definition pow2 :: "int \<Rightarrow> rat" where
  "pow2 e = (if 0 \<le> e then 2 ^ nat e else 1 / 2 ^ nat (- e))"

text \<open>The exponent \<open>e\<close> with \<open>2 ^ 52 \<le> \<bar>q\<bar> / 2 ^ e < 2 ^ 53\<close>, for \<open>q \<noteq> 0\<close>.\<close>

definition ulp_exponent :: "rat \<Rightarrow> int" where
  "ulp_exponent q =
     (case quotient_of \<bar>q\<bar> of (a, b) \<Rightarrow>
        let k = bitlen a - bitlen b
        in (if \<bar>q\<bar> < pow2 k then k - 1 else k) - 52)"

definition float_round :: "rat \<Rightarrow> rat" where
  "float_round q =
     (if q = 0 then 0
      else let e = ulp_exponent q in of_int (round_half_even (q / pow2 e)) * pow2 e)"

definition truediv :: "rat \<Rightarrow> rat \<Rightarrow> rat" where
  "truediv a b = float_round (a / b)"

definition fmul :: "rat \<Rightarrow> rat \<Rightarrow> rat" where
  "fmul a b = float_round (a * b)"

definition py_int :: "rat \<Rightarrow> int" where
  "py_int x = (if 0 \<le> x then \<lfloor>x\<rfloor> else \<lceil>x\<rceil>)"

record status =
  currentAction :: string
  progress :: "rat option"
  total :: "rat option"

text \<open>\<^verbatim>\<open>d.get(key, default)\<close> on a key that may be absent.\<close>

definition dict_get :: "'a option \<Rightarrow> 'a \<Rightarrow> 'a" where
  "dict_get v d = (case v of Some x \<Rightarrow> x | None \<Rightarrow> d)"

text \<open>
  A printed progress line: \<open>Percent_line action filled empty percent\<close> is
  \<^verbatim>\<open>{action}: [{bar}] {percent}%\<close> with a bar of \<open>filled\<close> full and \<open>empty\<close> light
  blocks; \<open>Action_line action\<close> is \<^verbatim>\<open>{action}...\<close>.
\<close>

datatype report = Percent_line string nat nat int | Action_line string

definition bar_length :: int where
  "bar_length = 20"

text \<open>The percentage line 117 derives from an event.\<close>

definition derived_percent :: "status \<Rightarrow> int" where
  "derived_percent st =
     py_int (fmul (truediv (dict_get (progress st) 0) (dict_get (total st) 0)) 100)"

text \<open>
  The body of the loop over the events, lines 112 to 127: the line it prints, if any,
  and the new value of \<open>last_percent\<close>.
\<close>

definition report_status :: "int \<Rightarrow> status \<Rightarrow> report option \<times> int" where
  "report_status last_percent st =
    (let action = currentAction st;
         progress = dict_get (progress st) 0;
         total_time = dict_get (total st) 0
     in if total_time > 0 then
          let percent = py_int (fmul (truediv progress total_time) 100) in
          if percent \<noteq> last_percent \<and> percent mod 5 = 0 then
            let filled = py_int (truediv (of_int (bar_length * percent)) 100)
            in (Some (Percent_line action (nat filled) (nat (bar_length - filled)) percent),
                percent)
          else (None, last_percent)
        else if action \<noteq> ''Downloading'' then (Some (Action_line action), last_percent)
        else (None, last_percent))"

fun consume :: "int \<Rightarrow> status list \<Rightarrow> report list" where
  "consume last_percent [] = []"
| "consume last_percent (st # sts) =
     (case report_status last_percent st of
        (None, last') \<Rightarrow> consume last' sts
      | (Some line, last') \<Rightarrow> line # consume last' sts)"

definition is_percent_line :: "report \<Rightarrow> bool" where
  "is_percent_line r = (case r of Percent_line a f e p \<Rightarrow> True | Action_line a \<Rightarrow> False)"

definition percent_shown :: "report \<Rightarrow> int option" where
  "percent_shown r = (case r of Percent_line a f e p \<Rightarrow> Some p | Action_line a \<Rightarrow> None)"

definition has_total :: "status \<Rightarrow> bool" where
  "has_total st = (dict_get (total st) 0 > 0)"

text \<open>
  The reading of the specification that a line appears only when the action label
  differs from the label of the event before it (\<open>prev\<close>, \<open>None\<close> before the first).
\<close>

fun reports_only_on_change :: "string option \<Rightarrow> int \<Rightarrow> status list \<Rightarrow> bool" where
  "reports_only_on_change prev last_percent [] = True"
| "reports_only_on_change prev last_percent (st # sts) =
     (case report_status last_percent st of
        (line, last') \<Rightarrow>
          (line = None \<or> prev \<noteq> Some (currentAction st))
          \<and> reports_only_on_change (Some (currentAction st)) last' sts)"

text \<open>
  Two runs of events used as examples: a transfer of 100 seconds reported every 5
  seconds, and a retry announced twice with no total.
\<close>

definition steady_run :: "status list" where
  "steady_run =
     map (\<lambda>p. \<lparr>currentAction = ''Downloading'', progress = Some (of_int p), total = Some 100\<rparr>)
       [0, 5, 10, 15, 20, 25, 30, 35, 40, 45, 50, 55, 60, 65, 70, 75, 80, 85, 90, 95, 100]"

definition retrying_twice :: "status list" where
  "retrying_twice =
     [\<lparr>currentAction = ''Retrying'', progress = Some 0, total = Some 0\<rparr>,
      \<lparr>currentAction = ''Retrying'', progress = Some 0, total = Some 0\<rparr>]"

subsection \<open>The file system\<close>

text \<open>
  A store from paths to what is there. \<^verbatim>\<open>os.makedirs(p, exist_ok=True)\<close> leaves an
  existing directory alone, raises on a file in the way, and otherwise creates \<open>p\<close>
  with its missing ancestors.
\<close>

datatype node = File nat | Dir

type_synonym filesystem = "path \<Rightarrow> node option"

definition os_path_exists :: "filesystem \<Rightarrow> path \<Rightarrow> bool" where
  "os_path_exists fs p = (fs p \<noteq> None)"

definition is_file :: "filesystem \<Rightarrow> path \<Rightarrow> bool" where
  "is_file fs p = (case fs p of Some (File n) \<Rightarrow> True | _ \<Rightarrow> False)"

definition parents :: "path \<Rightarrow> path list" where
  "parents p = map (\<lambda>i. take i p) (filter (\<lambda>i. p ! i = CHR ''/'') [1..<length p])"

definition makedirs :: "filesystem \<Rightarrow> path \<Rightarrow> raised + filesystem" where
  "makedirs fs p =
     (case fs p of
        Some Dir \<Rightarrow> Inr fs
      | Some (File n) \<Rightarrow> Inl (Exception ''FileExistsError'')
      | None \<Rightarrow>
          if list_ex (is_file fs) (parents p) then Inl (Exception ''NotADirectoryError'')
          else Inr (\<lambda>q. if q = p \<or> q \<in> set (parents p) then Some Dir else fs q))"

subsection \<open>Recordings and the collaborators\<close>

text \<open>
  A recording as the batch handles it: an entry of the catalog with its two times,
  integer seconds since the epoch, and the optional tag the camera spells
  \<^verbatim>\<open>vedio_type\<close>.
\<close>

record recording =
  startTime :: int
  endTime :: int
  vedio_type :: "pyval option"

text \<open>The arguments line 100 gives the streaming downloader.\<close>

record downloader_args =
  dl_startTime :: int
  dl_endTime :: int
  dl_timeCorrection :: int
  dl_outputDirectory :: path
  dl_fileName :: string
  dl_window_size :: int

text \<open>
  What one run of the streaming downloader does: the events it yields, how the stream
  ends, and the size of the file it leaves at its destination (the output directory
  followed by the file name), if it leaves one.
\<close>

datatype stream_end = Completed | Raises raised

record transfer =
  statuses :: "status list"
  ending :: stream_end
  written :: "nat option"

record request =
  method_name :: string
  params :: pyval

text \<open>
  The surroundings of a batch: the time zone, the flag \<^verbatim>\<open>DELETE_AFTER_DOWNLOAD\<close>, the
  behaviour of the downloader built for the \<open>i\<close>-th recording, and the camera's answer
  to a request made for the \<open>i\<close>-th recording (\<open>None\<close>: it returns).
\<close>

record env =
  utcoffset :: "int \<Rightarrow> int"
  DELETE_AFTER_DOWNLOAD :: bool
  downloader :: "nat \<Rightarrow> downloader_args \<Rightarrow> transfer"
  executeFunction :: "nat \<Rightarrow> request \<Rightarrow> raised option"

definition WINDOW_SIZE :: int where
  "WINDOW_SIZE = 1000"

text \<open>
  What a run does that can be observed from outside, in order: a transfer started, a
  progress line printed, \<^verbatim>\<open>try_delete_recording\<close> entered, a request sent to the camera.
\<close>

datatype event =
    Transfer_started downloader_args
  | Progress_line report
  | Try_delete recording
  | Execute_function request

subsection \<open>Downloading one recording\<close>

text \<open>
  \<^verbatim>\<open>download_recording\<close>, lines 71 to 134, in two parts: \<open>transfer_recording\<close> is
  the \<^verbatim>\<open>try\<close> block (lines 99 to 134), \<open>download_recording\<close> the function. The
  result is the value returned (\<^verbatim>\<open>"skipped"\<close>, \<^verbatim>\<open>True\<close> or \<^verbatim>\<open>False\<close>) or what is
  raised, with the file system left behind and the events of the call. The path
  computations and the directory creation stand before the \<^verbatim>\<open>try\<close>, so what they raise
  leaves the function; inside it, \<^verbatim>\<open>except Exception\<close> turns an \<open>Exception\<close> into
  \<^verbatim>\<open>False\<close> and lets a \<open>BaseException\<close> pass.
\<close>

definition transfer_recording ::
  "env \<Rightarrow> recording \<Rightarrow> int \<Rightarrow> nat \<Rightarrow> path \<Rightarrow> string \<Rightarrow> filesystem
    \<Rightarrow> (raised + pyval) \<times> filesystem \<times> event list" where
  "transfer_recording E recording time_correction index output_dir filename fs =
    (let args = \<lparr>dl_startTime = startTime recording, dl_endTime = endTime recording,
                 dl_timeCorrection = time_correction,
                 dl_outputDirectory = output_dir @ os_sep,
                 dl_fileName = filename,
                 dl_window_size = WINDOW_SIZE\<rparr>;
         t = downloader E index args;
         fs' = (case written t of
                  None \<Rightarrow> fs
                | Some n \<Rightarrow> fs(dl_outputDirectory args @ dl_fileName args \<mapsto> File n));
         evs = Transfer_started args # map Progress_line (consume (- 1) (statuses t))
     in case ending t of
          Completed \<Rightarrow> (Inr (PBool True), fs', evs)
        | Raises (Exception msg) \<Rightarrow> (Inr (PBool False), fs', evs)
        | Raises (BaseException msg) \<Rightarrow> (Inl (BaseException msg), fs', evs))"

definition download_recording ::
  "env \<Rightarrow> recording \<Rightarrow> path \<Rightarrow> int \<Rightarrow> nat \<Rightarrow> nat \<Rightarrow> filesystem
    \<Rightarrow> (raised + pyval) \<times> filesystem \<times> event list" where
  "download_recording E recording base_output_dir time_correction index total_n fs =
    (let start_time = startTime recording;
         end_time = endTime recording;
         video_type = dict_get (vedio_type recording) (PStr ''unknown'');
         duration = end_time - start_time
     in case get_date_folder (utcoffset E) start_time of
          Inl e \<Rightarrow> (Inl e, fs, [])
        | Inr date_folder \<Rightarrow>
            let output_dir = os_path_join base_output_dir date_folder
            in case makedirs fs output_dir of
                 Inl e \<Rightarrow> (Inl e, fs, [])
               | Inr fs1 \<Rightarrow>
                   (case format_filename (utcoffset E) start_time of
                      Inl e \<Rightarrow> (Inl e, fs1, [])
                    | Inr filename \<Rightarrow>
                        let filepath = os_path_join output_dir filename
                        in if os_path_exists fs1 filepath then (Inr (PStr ''skipped''), fs1, [])
                           else transfer_recording E recording time_correction index
                                  output_dir filename fs1))"

text \<open>
  The path lines 79 to 84 plan for a start time, without the directory creation
  between them: the directory and the file inside it.
\<close>

definition artifact_dir :: "(int \<Rightarrow> int) \<Rightarrow> path \<Rightarrow> int \<Rightarrow> raised + path" where
  "artifact_dir utcoff base_output_dir start_time =
     (case get_date_folder utcoff start_time of
        Inl e \<Rightarrow> Inl e
      | Inr date_folder \<Rightarrow> Inr (os_path_join base_output_dir date_folder))"

definition artifact_path :: "(int \<Rightarrow> int) \<Rightarrow> path \<Rightarrow> int \<Rightarrow> raised + path" where
  "artifact_path utcoff base_output_dir start_time =
     (case artifact_dir utcoff base_output_dir start_time of
        Inl e \<Rightarrow> Inl e
      | Inr output_dir \<Rightarrow>
          (case format_filename utcoff start_time of
             Inl e \<Rightarrow> Inl e
           | Inr filename \<Rightarrow> Inr (os_path_join output_dir filename)))"

text \<open>What lines 73 to 84 plan for a recording: the directory, the file name, the path.\<close>

definition planned_artifact :: "env \<Rightarrow> path \<Rightarrow> recording \<Rightarrow> raised + (path \<times> string \<times> path)" where
  "planned_artifact E base_output_dir recording =
     (let start_time = startTime recording
      in case artifact_dir (utcoffset E) base_output_dir start_time of
           Inl e \<Rightarrow> Inl e
         | Inr output_dir \<Rightarrow>
             (case format_filename (utcoffset E) start_time of
                Inl e \<Rightarrow> Inl e
              | Inr filename \<Rightarrow> Inr (output_dir, filename, os_path_join output_dir filename)))"

text \<open>
  The artifact of a recording is on disk: something exists at its planned path, inside
  a directory, as it is on any file system.
\<close>

definition artifact_present :: "env \<Rightarrow> path \<Rightarrow> filesystem \<Rightarrow> recording \<Rightarrow> bool" where
  "artifact_present E base_output_dir fs r =
     (case planned_artifact E base_output_dir r of
        Inl e \<Rightarrow> False
      | Inr (output_dir, filename, filepath) \<Rightarrow>
          fs output_dir = Some Dir \<and> os_path_exists fs filepath)"

text \<open>
  A decimal field zero-padded to a width, and what the two formatting functions print
  for a local time \<open>dt\<close> and a start time: the year as it is, every other field
  padded to two digits.
\<close>

definition padded :: "nat \<Rightarrow> int \<Rightarrow> string" where
  "padded w v = zfill w (str_int v)"

definition printed_dir :: "datetime \<Rightarrow> path" where
  "printed_dir dt = str_int (year dt) @ ''/'' @ padded 2 (month dt) @ ''/'' @ padded 2 (day dt)"

definition printed_name :: "datetime \<Rightarrow> int \<Rightarrow> string" where
  "printed_name dt start_time =
     str_int (year dt) @ padded 2 (month dt) @ padded 2 (day dt) @ ''_''
       @ padded 2 (hour dt) @ padded 2 (minute dt) @ padded 2 (second dt)
       @ ''-'' @ str_int start_time @ ''.mp4''"

text \<open>
  The layout the specification gives: fields of fixed width, zero-padded, the year in
  four digits.
\<close>

definition layout_dir :: "datetime \<Rightarrow> path" where
  "layout_dir dt = padded 4 (year dt) @ ''/'' @ padded 2 (month dt) @ ''/'' @ padded 2 (day dt)"

definition layout_name :: "datetime \<Rightarrow> int \<Rightarrow> string" where
  "layout_name dt start_time =
     padded 4 (year dt) @ padded 2 (month dt) @ padded 2 (day dt) @ ''_''
       @ padded 2 (hour dt) @ padded 2 (minute dt) @ padded 2 (second dt)
       @ ''-'' @ str_int start_time @ ''.mp4''"

definition all_digits :: "string \<Rightarrow> bool" where
  "all_digits s = list_all (\<lambda>c. c \<in> set ''0123456789'') s"

subsection \<open>Deleting from the camera\<close>

text \<open>
  \<^verbatim>\<open>try_delete_recording\<close>, lines 137 to 185: nothing with the flag off; otherwise the
  two request shapes in order, the first that returns wins, an \<open>Exception\<close> moves on
  to the next shape.
\<close>

definition delete_attempts :: "recording \<Rightarrow> request list" where
  "delete_attempts recording =
     [\<lparr>method_name = ''deleteRecording'',
       params = PDict [(''playback'', PDict [(''delete_video'', PDict
                  [(''channel'', PInt 0),
                   (''start_time'', PStr (str_int (startTime recording))),
                   (''end_time'', PStr (str_int (endTime recording)))])])]\<rparr>,
      \<lparr>method_name = ''do'',
       params = PDict [(''playback'', PDict [(''delete'', PDict
                  [(''start_time'', PInt (startTime recording)),
                   (''end_time'', PInt (endTime recording))])])]\<rparr>]"

fun try_attempts :: "(request \<Rightarrow> raised option) \<Rightarrow> request list \<Rightarrow> (raised + bool) \<times> event list" where
  "try_attempts exec [] = (Inr False, [])"
| "try_attempts exec (attempt # rest) =
     (case exec attempt of
        None \<Rightarrow> (Inr True, [Execute_function attempt])
      | Some (Exception msg) \<Rightarrow>
          (case try_attempts exec rest of
             (res, evs) \<Rightarrow> (res, Execute_function attempt # evs))
      | Some (BaseException msg) \<Rightarrow> (Inl (BaseException msg), [Execute_function attempt]))"

definition try_delete_recording :: "env \<Rightarrow> nat \<Rightarrow> recording \<Rightarrow> (raised + bool) \<times> event list" where
  "try_delete_recording E index recording =
     (if \<not> DELETE_AFTER_DOWNLOAD E then (Inr False, [Try_delete recording])
      else
        (case try_attempts (executeFunction E index) (delete_attempts recording) of
           (res, evs) \<Rightarrow> (res, Try_delete recording # evs)))"

subsection \<open>The batch loop\<close>

record counters =
  successful :: int
  failed :: int
  skipped :: int
  deleted :: int

definition zero_counters :: counters where
  "zero_counters = \<lparr>successful = 0, failed = 0, skipped = 0, deleted = 0\<rparr>"

definition processed :: "counters \<Rightarrow> int" where
  "processed c = successful c + skipped c + failed c"

text \<open>
  One turn of the loop of \<^verbatim>\<open>download_all_videos\<close>, lines 256 to 266: the exception
  that leaves the loop, if any, the counters, the file system and the events.
\<close>

definition process_recording ::
  "env \<Rightarrow> path \<Rightarrow> int \<Rightarrow> nat \<Rightarrow> nat \<Rightarrow> recording \<Rightarrow> counters \<Rightarrow> filesystem
    \<Rightarrow> raised option \<times> counters \<times> filesystem \<times> event list" where
  "process_recording E output_dir time_correction total_count i recording c fs =
    (case download_recording E recording output_dir time_correction i total_count fs of
       (Inl e, fs', evs) \<Rightarrow> (Some e, c, fs', evs)
     | (Inr result, fs', evs) \<Rightarrow>
         if result = PStr ''skipped'' then (None, c\<lparr>skipped := skipped c + 1\<rparr>, fs', evs)
         else if result = PBool True then
           (let c1 = c\<lparr>successful := successful c + 1\<rparr>
            in case try_delete_recording E i recording of
                 (Inl e, evs') \<Rightarrow> (Some e, c1, fs', evs @ evs')
               | (Inr del, evs') \<Rightarrow>
                   (None, if del then c1\<lparr>deleted := deleted c1 + 1\<rparr> else c1, fs', evs @ evs'))
         else (None, c\<lparr>failed := failed c + 1\<rparr>, fs', evs))"

text \<open>The loop from index \<open>i\<close> on: an exception that leaves a turn ends it.\<close>

fun download_loop ::
  "env \<Rightarrow> path \<Rightarrow> int \<Rightarrow> nat \<Rightarrow> nat \<Rightarrow> recording list \<Rightarrow> counters \<Rightarrow> filesystem
    \<Rightarrow> raised option \<times> counters \<times> filesystem \<times> event list" where
  "download_loop E output_dir time_correction total_count i [] c fs = (None, c, fs, [])"
| "download_loop E output_dir time_correction total_count i (recording # rest) c fs =
    (case process_recording E output_dir time_correction total_count i recording c fs of
       (Some e, c', fs', evs) \<Rightarrow> (Some e, c', fs', evs)
     | (None, c', fs', evs) \<Rightarrow>
         (case download_loop E output_dir time_correction total_count (Suc i) rest c' fs' of
            (res, c'', fs'', evs') \<Rightarrow> (res, c'', fs'', evs @ evs')))"

text \<open>
  The download phase of \<^verbatim>\<open>download_all_videos\<close>, lines 249 to 266, over the recordings
  the scan collected: the counters start at zero, the index at 1.
\<close>

definition download_all :: "env \<Rightarrow> path \<Rightarrow> int \<Rightarrow> recording list \<Rightarrow> filesystem
    \<Rightarrow> raised option \<times> counters \<times> filesystem \<times> event list" where
  "download_all E output_dir time_correction all_recordings fs =
     download_loop E output_dir time_correction (length all_recordings) 1 all_recordings
       zero_counters fs"

definition is_delete_event :: "event \<Rightarrow> bool" where
  "is_delete_event ev =
     (case ev of Try_delete r \<Rightarrow> True | Execute_function q \<Rightarrow> True | _ \<Rightarrow> False)"

definition is_transfer_event :: "event \<Rightarrow> bool" where
  "is_transfer_event ev = (case ev of Transfer_started a \<Rightarrow> True | _ \<Rightarrow> False)"

definition is_request_event :: "event \<Rightarrow> bool" where
  "is_request_event ev = (case ev of Execute_function q \<Rightarrow> True | _ \<Rightarrow> False)"

text \<open>
  The transfer that \<open>download_recording\<close> starts for a recording, if it gets as far as
  starting one.
\<close>

definition started_transfer ::
  "env \<Rightarrow> recording \<Rightarrow> path \<Rightarrow> int \<Rightarrow> nat \<Rightarrow> filesystem \<Rightarrow> transfer option" where
  "started_transfer E recording base_output_dir time_correction index fs =
     (case planned_artifact E base_output_dir recording of
        Inl e \<Rightarrow> None
      | Inr (output_dir, filename, filepath) \<Rightarrow>
          (case makedirs fs output_dir of
             Inl e \<Rightarrow> None
           | Inr fs1 \<Rightarrow>
               if os_path_exists fs1 filepath then None
               else Some (downloader E index
                      \<lparr>dl_startTime = startTime recording, dl_endTime = endTime recording,
                       dl_timeCorrection = time_correction,
                       dl_outputDirectory = output_dir @ os_sep,
                       dl_fileName = filename,
                       dl_window_size = WINDOW_SIZE\<rparr>)))"

text \<open>
  An observation point of a batch: the counters once the first \<open>k\<close> recordings have
  been processed, if the batch gets that far.
\<close>

definition observed ::
  "env \<Rightarrow> path \<Rightarrow> int \<Rightarrow> recording list \<Rightarrow> filesystem \<Rightarrow> nat \<Rightarrow> counters option" where
  "observed E output_dir time_correction all_recordings fs k =
     (case download_loop E output_dir time_correction (length all_recordings) 1
             (take k all_recordings) zero_counters fs of
        (None, c, fs', evs) \<Rightarrow> Some c
      | (Some e, c, fs', evs) \<Rightarrow> None)"

subsection \<open>Examples\<close>

text \<open>
  A camera two hours east of UTC whose \<open>i\<close>-th transfer behaves as given and which
  accepts every request; a recording of 30 seconds; a transfer that completes and
  leaves its file, and one that ends by raising.
\<close>

definition camera :: "bool \<Rightarrow> (nat \<Rightarrow> transfer) \<Rightarrow> env" where
  "camera flag behaviour =
     \<lparr>utcoffset = (\<lambda>t. 7200), DELETE_AFTER_DOWNLOAD = flag,
      downloader = (\<lambda>i args. behaviour i), executeFunction = (\<lambda>i q. None)\<rparr>"

definition clip :: "int \<Rightarrow> recording" where
  "clip t = \<lparr>startTime = t, endTime = t + 30, vedio_type = Some (PInt 2)\<rparr>"

definition clean_transfer :: transfer where
  "clean_transfer = \<lparr>statuses = [], ending = Completed, written = Some 1000\<rparr>"

definition broken_transfer :: "raised \<Rightarrow> transfer" where
  "broken_transfer e = \<lparr>statuses = [], ending = Raises e, written = None\<rparr>"

text \<open>An archive that holds the artifact of the recording that starts at 1721829154.\<close>

definition archive :: filesystem where
  "archive =
     [''/videos/2024/07/24'' \<mapsto> Dir,
      ''/videos/2024/07/24/20240724_155234-1721829154.mp4'' \<mapsto> File 0]"

text \<open>
  A catalog of three recordings, run against the archive: the first is on disk, the
  transfer of the second (the transfer of index 2) ends by raising, the third
  downloads. \<open>mixed_behaviour\<close> raises an \<open>Exception\<close>, \<open>cancelled_behaviour\<close> a
  \<open>BaseException\<close>.
\<close>

definition mixed_catalog :: "recording list" where
  "mixed_catalog = [clip 1721829154, clip 1721829200, clip 1721829300]"

definition mixed_behaviour :: "nat \<Rightarrow> transfer" where
  "mixed_behaviour i = (if i = 2 then broken_transfer (Exception ''timeout'') else clean_transfer)"

definition cancelled_behaviour :: "nat \<Rightarrow> transfer" where
  "cancelled_behaviour i =
     (if i = 2 then broken_transfer (BaseException ''CancelledError'') else clean_transfer)"

section \<open>Properties\<close>

subsection \<open>Decimal fields\<close>

text \<open>
  What \<open>str_nat\<close> prints is made of digits, and a number below a power of ten has the
  width to match; so a padded field has its exact width and holds digits only.
\<close>

lemma digit_is_digit: "n < 10 \<Longrightarrow> digit n \<in> set ''0123456789''"
  unfolding digit_def by (rule nth_mem) simp

lemma all_digits_append: "all_digits (a @ b) = (all_digits a \<and> all_digits b)"
  by (simp add: all_digits_def)

lemma all_digits_digit: "n < 10 \<Longrightarrow> all_digits [digit n]"
  using digit_is_digit[of n] unfolding all_digits_def by (simp del: set_simps)

lemma all_digits_zeros: "all_digits (replicate k CHR ''0'')"
  by (induction k) (simp_all add: all_digits_def)

lemma str_nat_digits: "all_digits (str_nat n)"
proof (induction n rule: str_nat.induct)
  case (1 n)
  show ?case
  proof (cases "n < 10")
    case True
    then show ?thesis using all_digits_digit[of n] by (subst str_nat.simps) simp
  next
    case False
    then have "all_digits (str_nat (n div 10))"
      using 1 by simp
    moreover have "all_digits [digit (n mod 10)]"
      by (rule all_digits_digit) simp
    ultimately show ?thesis using False
      by (subst str_nat.simps) (simp add: all_digits_append)
  qed
qed

lemma str_nat_length1: "n < 10 \<Longrightarrow> length (str_nat n) = 1"
  by (subst str_nat.simps) simp

lemma str_nat_length2: "10 \<le> n \<Longrightarrow> n < 100 \<Longrightarrow> length (str_nat n) = 2"
  by (subst str_nat.simps) (simp add: str_nat_length1)

lemma str_nat_length3: "100 \<le> n \<Longrightarrow> n < 1000 \<Longrightarrow> length (str_nat n) = 3"
proof -
  assume a: "100 \<le> n" "n < 1000"
  then have "10 \<le> n div 10" "n div 10 < 100" by auto
  then have "length (str_nat (n div 10)) = 2" by (rule str_nat_length2)
  then show ?thesis using a by (subst str_nat.simps) simp
qed

lemma str_nat_length4: "1000 \<le> n \<Longrightarrow> n < 10000 \<Longrightarrow> length (str_nat n) = 4"
proof -
  assume a: "1000 \<le> n" "n < 10000"
  then have "100 \<le> n div 10" "n div 10 < 1000" by auto
  then have "length (str_nat (n div 10)) = 3" by (rule str_nat_length3)
  then show ?thesis using a by (subst str_nat.simps) simp
qed

lemma str_nat_nonempty: "str_nat n \<noteq> []"
  by (subst str_nat.simps) simp

lemma padded_length2: "0 \<le> v \<Longrightarrow> v < 100 \<Longrightarrow> length (padded 2 v) = 2"
proof -
  assume a: "0 \<le> v" "v < 100"
  show ?thesis
  proof (cases "v < 10")
    case True
    then have "length (str_nat (nat v)) = 1" using a by (intro str_nat_length1) simp
    then show ?thesis using a by (simp add: padded_def zfill_def str_int_def)
  next
    case False
    then have "length (str_nat (nat v)) = 2" using a by (intro str_nat_length2) simp_all
    then show ?thesis using a by (simp add: padded_def zfill_def str_int_def)
  qed
qed

lemma padded_length4: "0 \<le> v \<Longrightarrow> v < 10000 \<Longrightarrow> length (padded 4 v) = 4"
proof -
  assume a: "0 \<le> v" "v < 10000"
  consider "v < 10" | "10 \<le> v" "v < 100" | "100 \<le> v" "v < 1000" | "1000 \<le> v"
    by linarith
  then have "length (str_nat (nat v)) \<le> 4"
  proof cases
    case 1
    then have "length (str_nat (nat v)) = 1" using a by (intro str_nat_length1) simp
    then show ?thesis by simp
  next
    case 2
    then have "length (str_nat (nat v)) = 2" using a by (intro str_nat_length2) simp_all
    then show ?thesis by simp
  next
    case 3
    then have "length (str_nat (nat v)) = 3" using a by (intro str_nat_length3) simp_all
    then show ?thesis by simp
  next
    case 4
    then have "length (str_nat (nat v)) = 4" using a by (intro str_nat_length4) simp_all
    then show ?thesis by simp
  qed
  then show ?thesis using a by (simp add: padded_def zfill_def str_int_def)
qed

lemma padded_digits: "0 \<le> v \<Longrightarrow> all_digits (padded w v)"
  by (simp add: padded_def zfill_def str_int_def all_digits_append all_digits_zeros str_nat_digits)

lemma padded_nonempty: "padded w v \<noteq> []"
  by (simp add: padded_def zfill_def str_int_def str_nat_nonempty)

lemma str_int_digits: "0 \<le> v \<Longrightarrow> all_digits (str_int v)"
  by (simp add: str_int_def str_nat_digits)

lemma str_int_nonempty: "str_int v \<noteq> []"
  by (simp add: str_int_def str_nat_nonempty)

lemma padded_year: "1000 \<le> v \<Longrightarrow> v \<le> 9999 \<Longrightarrow> padded 4 v = str_int v"
proof -
  assume a: "1000 \<le> v" "v \<le> 9999"
  then have "length (str_nat (nat v)) = 4" by (intro str_nat_length4) simp_all
  then show ?thesis using a by (simp add: padded_def zfill_def str_int_def)
qed

lemma all_digits_no_sep: "all_digits s \<Longrightarrow> CHR ''/'' \<notin> set s"
  by (auto simp: all_digits_def list_all_iff)

lemma all_digits_ends:
  assumes "all_digits s" "s \<noteq> []"
  shows "hd s \<noteq> CHR ''/''" "last s \<noteq> CHR ''/''"
  using all_digits_no_sep[OF assms(1)] assms(2) hd_in_set[of s] last_in_set[of s] by metis+

lemmas decimal_eval = padded_def zfill_def str_int_def str_nat.simps digit_def

subsection \<open>The calendar\<close>

text \<open>
  The fields of a converted time lie in their ranges: the year in 1 to 9999, the month
  in 1 to 12, the day in 1 to 31, and the time of day within the day.
\<close>

lemma month_day_range:
  fixes r :: int
  assumes r: "0 \<le> r" "r < 365"
    and res: "(mm, dd) = month_and_day r leap"
  shows "1 \<le> mm \<and> mm \<le> 12 \<and> 1 \<le> dd \<and> dd \<le> 31"
proof -
  define k where "k = (r + 50) div 32"
  have kb: "32 * k \<le> r + 50" "r + 50 < 32 * k + 32"
    unfolding k_def by (simp_all add: algebra_simps)
  then have "1 \<le> k" "k \<le> 12" using r by arith+
  then have "k = 1 \<or> k = 2 \<or> k = 3 \<or> k = 4 \<or> k = 5 \<or> k = 6 \<or> k = 7 \<or> k = 8
    \<or> k = 9 \<or> k = 10 \<or> k = 11 \<or> k = 12" by arith
  then show ?thesis using res kb r unfolding month_and_day_def k_def[symmetric] Let_def
    by (elim disjE) (simp_all add: DAYS_BEFORE_MONTH_def DAYS_IN_MONTH_def split: if_splits)
qed

lemma ord2ymd_range:
  assumes "ord2ymd n = (y, m, d)"
  shows "1 \<le> m \<and> m \<le> 12 \<and> 1 \<le> d \<and> d \<le> 31"
proof -
  define r where "r = (n - 1) mod 146097 mod 36524 mod 1461 mod 365"
  have r: "0 \<le> r" "r < 365" by (simp_all add: r_def)
  have "(m, d) = (12, 31) \<or> (\<exists>leap. (m, d) = month_and_day r leap)"
    using assms unfolding ord2ymd_def Let_def r_def[symmetric]
    by (simp split: if_splits prod.splits) metis
  then show ?thesis using month_day_range[OF r] by auto
qed

lemma localtime_range:
  assumes "localtime utcoff t = Inr dt"
  shows "1 \<le> month dt \<and> month dt \<le> 12
       \<and> 1 \<le> day dt \<and> day dt \<le> 31 \<and> 0 \<le> hour dt \<and> hour dt \<le> 23
       \<and> 0 \<le> minute dt \<and> minute dt \<le> 59 \<and> 0 \<le> second dt \<and> second dt \<le> 59"
proof -
  obtain y m d where o: "ord2ymd (719163 + (t + utcoff t) div 86400) = (y, m, d)"
    by (cases "ord2ymd (719163 + (t + utcoff t) div 86400)") auto
  define secs where "secs = (t + utcoff t) mod 86400"
  have s: "0 \<le> secs" "secs < 86400" by (simp_all add: secs_def)
  have dt: "dt = \<lparr>year = y, month = m, day = d, hour = secs div 3600,
                   minute = secs mod 3600 div 60, second = secs mod 60\<rparr>"
    using assms o unfolding localtime_def Let_def secs_def
    by (auto split: if_splits)
  have "secs div 3600 \<le> 23" "0 \<le> secs div 3600" using s by auto
  moreover have "0 \<le> secs mod 3600 div 60" "secs mod 3600 div 60 \<le> 59"
    by (auto simp: div_le_mono pos_imp_zdiv_nonneg_iff)
  ultimately show ?thesis using ord2ymd_range[OF o] by (simp add: dt)
qed

lemma fromtimestamp_localtime:
  assumes "fromtimestamp utcoff t = Inr dt"
  shows "localtime utcoff t = Inr dt" "MINYEAR \<le> year dt" "year dt \<le> MAXYEAR"
  using assms
  by (auto simp: fromtimestamp_def local_seconds_def Let_def split: if_splits sum.splits)

lemma fromtimestamp_range:
  assumes "fromtimestamp utcoff t = Inr dt"
  shows "1 \<le> year dt \<and> year dt \<le> 9999 \<and> 1 \<le> month dt \<and> month dt \<le> 12
       \<and> 1 \<le> day dt \<and> day dt \<le> 31 \<and> 0 \<le> hour dt \<and> hour dt \<le> 23
       \<and> 0 \<le> minute dt \<and> minute dt \<le> 59 \<and> 0 \<le> second dt \<and> second dt \<le> 59"
  using localtime_range[OF fromtimestamp_localtime(1)[OF assms]]
        fromtimestamp_localtime(2,3)[OF assms]
  by (simp add: MINYEAR_def MAXYEAR_def)

subsection \<open>Joining paths\<close>

text \<open>
  A relative component that is not empty is joined by one separator, unless what
  stands before it is empty or ends in one.
\<close>

lemma startswith_sep: "startswith b ''/'' = (b \<noteq> [] \<and> hd b = CHR ''/'')"
  by (cases b) (auto simp: startswith_def)

lemma endswith_sep: "endswith a ''/'' = (a \<noteq> [] \<and> last a = CHR ''/'')"
proof (cases a rule: rev_cases)
  case Nil
  then show ?thesis by (simp add: endswith_def)
next
  case (snoc xs x)
  then show ?thesis by (auto simp: endswith_def)
qed

lemma os_path_join_plain:
  assumes "a \<noteq> []" "last a \<noteq> CHR ''/''" "b \<noteq> []" "hd b \<noteq> CHR ''/''"
  shows "os_path_join a b = a @ ''/'' @ b"
  using assms by (simp add: os_path_join_def os_sep_def startswith_sep endswith_sep)

lemma join_relative:
  assumes "d \<noteq> []" "hd d \<noteq> CHR ''/''" "last d \<noteq> CHR ''/''" "f \<noteq> []" "hd f \<noteq> CHR ''/''"
  shows "os_path_join (os_path_join base d) f = os_path_join base (d @ ''/'' @ f)"
proof -
  have h: "hd (d @ ''/'' @ f) \<noteq> CHR ''/''" using assms by (simp add: hd_append)
  show ?thesis
  proof (cases "base = [] \<or> endswith base os_sep")
    case True
    then have "os_path_join base d = base @ d"
      using assms by (auto simp: os_path_join_def os_sep_def startswith_sep)
    moreover have "os_path_join (base @ d) f = (base @ d) @ ''/'' @ f"
      using assms by (intro os_path_join_plain) simp_all
    moreover have "os_path_join base (d @ ''/'' @ f) = base @ d @ ''/'' @ f"
      using True h assms by (auto simp: os_path_join_def os_sep_def startswith_sep)
    ultimately show ?thesis by simp
  next
    case False
    then have "os_path_join base d = base @ ''/'' @ d"
      using assms by (auto simp: os_path_join_def startswith_sep os_sep_def)
    moreover have "os_path_join (base @ ''/'' @ d) f = (base @ ''/'' @ d) @ ''/'' @ f"
      using assms by (intro os_path_join_plain) simp_all
    moreover have "os_path_join base (d @ ''/'' @ f) = base @ ''/'' @ d @ ''/'' @ f"
      using False h assms by (auto simp: os_path_join_def startswith_sep os_sep_def)
    ultimately show ?thesis by simp
  qed
qed

lemma os_path_join_ends:
  assumes "b \<noteq> []" "hd b \<noteq> CHR ''/''"
  shows "os_path_join a b \<noteq> []" "last (os_path_join a b) = last b"
  using assms by (auto simp: os_path_join_def os_sep_def startswith_sep)

subsection \<open>The planned path\<close>

text \<open>
  The two formatting functions print the fields of the local start time, and the plan
  of a recording is read off them. From the year 1000 on what they print is the layout
  of the specification.
\<close>

lemma printed_dir_ends:
  assumes "0 \<le> year dt" "0 \<le> day dt"
  shows "printed_dir dt \<noteq> []" "hd (printed_dir dt) \<noteq> CHR ''/''"
    "last (printed_dir dt) \<noteq> CHR ''/''"
  using all_digits_ends[OF str_int_digits[OF assms(1)] str_int_nonempty]
        all_digits_ends[OF padded_digits[OF assms(2)] padded_nonempty, of 2]
  by (simp_all add: printed_dir_def padded_nonempty str_int_nonempty hd_append)

lemma printed_name_ends:
  assumes "0 \<le> year dt"
  shows "printed_name dt t \<noteq> []" "hd (printed_name dt t) \<noteq> CHR ''/''"
  using all_digits_ends[OF str_int_digits[OF assms(1)] str_int_nonempty]
  by (simp_all add: printed_name_def str_int_nonempty hd_append)

lemma printed_layout:
  assumes "1000 \<le> year dt" "year dt \<le> 9999"
  shows "printed_dir dt = layout_dir dt" "printed_name dt t = layout_name dt t"
  by (simp_all add: printed_dir_def printed_name_def layout_dir_def layout_name_def
        padded_year[OF assms])

lemma directive_fields:
  "directive dt CHR ''Y'' = str_int (year dt)"
  "directive dt CHR ''m'' = padded 2 (month dt)"
  "directive dt CHR ''d'' = padded 2 (day dt)"
  "directive dt CHR ''H'' = padded 2 (hour dt)"
  "directive dt CHR ''M'' = padded 2 (minute dt)"
  "directive dt CHR ''S'' = padded 2 (second dt)"
  by (simp_all add: directive_def padded_def)

lemma get_date_folder_printed:
  assumes "fromtimestamp utcoff t = Inr dt"
  shows "get_date_folder utcoff t = Inr (printed_dir dt)"
proof -
  note r = fromtimestamp_range[OF assms]
  have y: "0 \<le> year dt" and m: "0 \<le> month dt" and d: "0 \<le> day dt" using r by auto
  have 1: "os_path_join (str_int (year dt)) (padded 2 (month dt))
             = str_int (year dt) @ ''/'' @ padded 2 (month dt)"
    using all_digits_ends[OF str_int_digits[OF y] str_int_nonempty]
          all_digits_ends[OF padded_digits[OF m] padded_nonempty]
    by (intro os_path_join_plain) (simp_all add: padded_nonempty str_int_nonempty)
  have 2: "os_path_join (str_int (year dt) @ ''/'' @ padded 2 (month dt)) (padded 2 (day dt))
             = (str_int (year dt) @ ''/'' @ padded 2 (month dt)) @ ''/'' @ padded 2 (day dt)"
    using all_digits_ends[OF padded_digits[OF m] padded_nonempty, of 2]
          all_digits_ends[OF padded_digits[OF d] padded_nonempty, of 2]
    by (intro os_path_join_plain) (simp_all add: padded_nonempty)
  show ?thesis using assms 1 2
    by (simp add: get_date_folder_def directive_fields os_path_join3_def printed_dir_def)
qed

lemma format_filename_printed:
  assumes "fromtimestamp utcoff t = Inr dt"
  shows "format_filename utcoff t = Inr (printed_name dt t)"
  using assms by (simp add: format_filename_def directive_fields printed_name_def)

lemma artifact_path_printed:
  assumes "fromtimestamp utcoff t = Inr dt"
  shows "artifact_path utcoff base t
           = Inr (os_path_join base (printed_dir dt @ ''/'' @ printed_name dt t))"
proof -
  note r = fromtimestamp_range[OF assms]
  have y: "0 \<le> year dt" and d: "0 \<le> day dt" using r by auto
  show ?thesis
    using join_relative[OF printed_dir_ends[OF y d] printed_name_ends[OF y], of base t]
    by (simp add: artifact_path_def artifact_dir_def get_date_folder_printed[OF assms]
          format_filename_printed[OF assms])
qed

lemma planned_artifact_cases:
  "planned_artifact E base r =
     (case fromtimestamp (utcoffset E) (startTime r) of
        Inl e \<Rightarrow> Inl e
      | Inr dt \<Rightarrow>
          Inr (os_path_join base (printed_dir dt), printed_name dt (startTime r),
               os_path_join (os_path_join base (printed_dir dt)) (printed_name dt (startTime r))))"
proof (cases "fromtimestamp (utcoffset E) (startTime r)")
  case (Inl e)
  then show ?thesis
    by (simp add: planned_artifact_def artifact_dir_def get_date_folder_def Let_def)
next
  case (Inr dt)
  then show ?thesis
    by (simp add: planned_artifact_def artifact_dir_def get_date_folder_printed[OF Inr]
          format_filename_printed[OF Inr] Let_def)
qed

lemmas path_eval = printed_dir_def printed_name_def decimal_eval os_path_join_def
  startswith_def endswith_def os_sep_def

subsection \<open>The catalog extractors\<close>

text \<open>
  Each loop appends to its accumulator the entries the comprehension selects, and
  never takes a raising branch.
\<close>

lemma extract_dates_entries_eq:
  "extract_dates_entries kvs dates = Inr (dates @ date_fields kvs)"
proof (induction kvs arbitrary: dates)
  case Nil
  then show ?case by (simp add: date_fields_def)
next
  case (Cons kv kvs)
  obtain key v where kv: "kv = (key, v)" by (cases kv)
  have step: "date_fields (kv # kvs) = date_fields [kv] @ date_fields kvs"
    by (simp add: date_fields_def)
  show ?case
  proof (cases v)
    case (PDict inner)
    then show ?thesis
      by (cases "map_of inner ''date''")
         (simp_all add: kv Cons.IH step date_fields_def isinstance_dict_def py_contains_def
            py_getitem_def)
  qed (simp_all add: kv Cons.IH step date_fields_def isinstance_dict_def)
qed

lemma extract_dates_items_eq:
  "extract_dates_items items dates
     = Inr (dates @ concat (map (mapping_entries date_fields) items))"
proof (induction items arbitrary: dates)
  case Nil
  then show ?case by simp
next
  case (Cons item items)
  then show ?case
    by (cases item)
       (simp_all add: isinstance_dict_def py_items_def mapping_entries_def
          extract_dates_entries_eq)
qed

lemma extract_recordings_entries_eq:
  "extract_recordings_entries kvs recs = Inr (recs @ recording_entries kvs)"
proof (induction kvs arbitrary: recs)
  case Nil
  then show ?case by (simp add: recording_entries_def)
next
  case (Cons kv kvs)
  obtain key v where kv: "kv = (key, v)" by (cases kv)
  have step: "recording_entries (kv # kvs) = recording_entries [kv] @ recording_entries kvs"
    by (simp add: recording_entries_def)
  show ?case
  proof (cases v)
    case (PDict inner)
    then show ?thesis
      by (simp add: kv Cons.IH step recording_entries_def isinstance_dict_def py_contains_def)
  qed (simp_all add: kv Cons.IH step recording_entries_def isinstance_dict_def)
qed

lemma extract_recordings_items_eq:
  "extract_recordings_items items recs
     = Inr (recs @ concat (map (mapping_entries recording_entries) items))"
proof (induction items arbitrary: recs)
  case Nil
  then show ?case by simp
next
  case (Cons item items)
  then show ?case
    by (cases item)
       (simp_all add: isinstance_dict_def py_items_def mapping_entries_def
          extract_recordings_entries_eq)
qed

subsection \<open>The lines of a transfer\<close>

text \<open>
  The loop body by cases, the multiples of 5, and the bound on the number of
  percentage lines by induction over the events, the last percentage generalised.
\<close>

lemma report_status_cases:
  "report_status last_percent st =
     (if has_total st then
        (if derived_percent st \<noteq> last_percent \<and> derived_percent st mod 5 = 0 then
           (Some (Percent_line (currentAction st)
                    (nat (py_int (truediv (of_int (bar_length * derived_percent st)) 100)))
                    (nat (bar_length - py_int (truediv (of_int (bar_length * derived_percent st)) 100)))
                    (derived_percent st)),
            derived_percent st)
         else (None, last_percent))
      else if currentAction st \<noteq> ''Downloading'' then (Some (Action_line (currentAction st)), last_percent)
      else (None, last_percent))"
  by (simp add: report_status_def has_total_def derived_percent_def Let_def)

lemma consume_Cons:
  "consume last_percent (st # sts) =
     (if has_total st then
        (if derived_percent st \<noteq> last_percent \<and> derived_percent st mod 5 = 0 then
           Percent_line (currentAction st)
             (nat (py_int (truediv (of_int (bar_length * derived_percent st)) 100)))
             (nat (bar_length - py_int (truediv (of_int (bar_length * derived_percent st)) 100)))
             (derived_percent st)
           # consume (derived_percent st) sts
         else consume last_percent sts)
      else if currentAction st \<noteq> ''Downloading'' then
        Action_line (currentAction st) # consume last_percent sts
      else consume last_percent sts)"
  by (simp add: report_status_cases)

declare consume.simps(2) [simp del]

lemma is_percent_line_simps [simp]:
  "is_percent_line (Percent_line a f e p) = True"
  "is_percent_line (Action_line a) = False"
  by (simp_all add: is_percent_line_def)

lemma percent_shown_simps [simp]:
  "percent_shown (Percent_line a f e p) = Some p"
  "percent_shown (Action_line a) = None"
  by (simp_all add: percent_shown_def)

lemma percent_lines_multiples:
  "r \<in> set (consume last_percent evs) \<Longrightarrow> percent_shown r = Some p \<Longrightarrow> p mod 5 = 0"
proof (induction evs arbitrary: last_percent)
  case Nil
  then show ?case by simp
next
  case (Cons st sts)
  then show ?case
    by (auto simp: consume_Cons split: if_splits)
qed

lemma percent_lines_bound:
  assumes "sorted (last_percent # map derived_percent (filter has_total evs))"
    and "\<forall>st \<in> set evs. has_total st \<longrightarrow> derived_percent st \<le> 100"
    and "last_percent \<le> 100"
  shows "int (length (filter is_percent_line (consume last_percent evs))) \<le> 20 - last_percent div 5"
  using assms
proof (induction evs arbitrary: last_percent)
  case Nil
  then show ?case by simp
next
  case (Cons st sts)
  show ?case
  proof (cases "has_total st")
    case False
    then have "int (length (filter is_percent_line (consume last_percent sts))) \<le> 20 - last_percent div 5"
      using Cons by simp
    then show ?thesis using False
      by (simp add: consume_Cons)
  next
    case True
    define p where "p = derived_percent st"
    have le: "last_percent \<le> p" and sp: "sorted (p # map derived_percent (filter has_total sts))"
      and p100: "p \<le> 100"
      using Cons.prems True by (auto simp: p_def)
    have sl: "sorted (last_percent # map derived_percent (filter has_total sts))"
      using Cons.prems(1) True by auto
    have rest: "\<forall>st \<in> set sts. has_total st \<longrightarrow> derived_percent st \<le> 100"
      using Cons.prems(2) by simp
    show ?thesis
    proof (cases "p \<noteq> last_percent \<and> p mod 5 = 0")
      case emit: True
      have "int (length (filter is_percent_line (consume p sts))) \<le> 20 - p div 5"
        using Cons.IH[OF sp rest p100] .
      moreover have "last_percent div 5 + 1 \<le> p div 5" using emit le by presburger
      ultimately show ?thesis using True emit
        by (simp add: consume_Cons p_def)
    next
      case False
      have "int (length (filter is_percent_line (consume last_percent sts))) \<le> 20 - last_percent div 5"
        using Cons.IH[OF sl rest Cons.prems(3)] .
      then show ?thesis using True False
        by (auto simp add: consume_Cons p_def)
    qed
  qed
qed

lemma consume_no_total:
  "\<forall>st \<in> set evs. \<not> has_total st \<Longrightarrow>
     consume last_percent evs
       = map Action_line (filter (\<lambda>a. a \<noteq> ''Downloading'') (map currentAction evs))"
  by (induction evs) (simp_all add: consume_Cons)

subsection \<open>What one download does\<close>

text \<open>
  The function rewritten over the plan; the values it can return; its events, none
  of which is a deletion event.
\<close>

lemma download_recording_planned:
  "download_recording E r base tc i n fs =
     (case planned_artifact E base r of
        Inl e \<Rightarrow> (Inl e, fs, [])
      | Inr (output_dir, filename, filepath) \<Rightarrow>
          (case makedirs fs output_dir of
             Inl e \<Rightarrow> (Inl e, fs, [])
           | Inr fs1 \<Rightarrow>
               if os_path_exists fs1 filepath then (Inr (PStr ''skipped''), fs1, [])
               else transfer_recording E r tc i output_dir filename fs1))"
proof (cases "fromtimestamp (utcoffset E) (startTime r)")
  case (Inl e)
  then show ?thesis
    by (simp add: download_recording_def planned_artifact_cases get_date_folder_def Let_def)
next
  case (Inr dt)
  then show ?thesis
    by (simp add: download_recording_def planned_artifact_cases
          get_date_folder_printed[OF Inr] format_filename_printed[OF Inr] Let_def
        split: sum.splits)
qed

lemma transfer_recording_result:
  "fst (transfer_recording E r tc i d f fs) \<noteq> Inr (PStr ''skipped'')"
  by (simp add: transfer_recording_def Let_def split: stream_end.splits raised.splits)

lemma transfer_recording_events:
  "snd (snd (transfer_recording E r tc i d f fs)) =
     Transfer_started \<lparr>dl_startTime = startTime r, dl_endTime = endTime r,
                       dl_timeCorrection = tc, dl_outputDirectory = d @ os_sep,
                       dl_fileName = f, dl_window_size = WINDOW_SIZE\<rparr>
     # map Progress_line (consume (- 1) (statuses (downloader E i
          \<lparr>dl_startTime = startTime r, dl_endTime = endTime r,
           dl_timeCorrection = tc, dl_outputDirectory = d @ os_sep,
           dl_fileName = f, dl_window_size = WINDOW_SIZE\<rparr>)))"
  by (simp add: transfer_recording_def Let_def split: stream_end.splits raised.splits)

lemma transfer_recording_values:
  "fst (transfer_recording E r tc i d f fs) = Inr (PBool True)
   \<or> fst (transfer_recording E r tc i d f fs) = Inr (PBool False)
   \<or> (\<exists>msg. fst (transfer_recording E r tc i d f fs) = Inl (BaseException msg))"
  by (simp add: transfer_recording_def Let_def split: stream_end.splits raised.splits)

lemma transfer_recording_no_delete:
  "filter is_delete_event (snd (snd (transfer_recording E r tc i d f fs))) = []"
  by (simp add: transfer_recording_events filter_empty_conv is_delete_event_def image_iff)

lemma download_recording_present:
  assumes "artifact_present E base fs r"
  shows "download_recording E r base tc i n fs = (Inr (PStr ''skipped''), fs, [])"
  using assms
  by (auto simp: artifact_present_def download_recording_planned makedirs_def
      split: sum.splits prod.splits)

lemma download_recording_no_delete:
  "filter is_delete_event (snd (snd (download_recording E r base tc i n fs))) = []"
  using transfer_recording_no_delete
  by (simp add: download_recording_planned split: sum.splits prod.splits)

lemma download_recording_values:
  "(\<exists>e. fst (download_recording E r base tc i n fs) = Inl e)
   \<or> fst (download_recording E r base tc i n fs) = Inr (PStr ''skipped'')
   \<or> fst (download_recording E r base tc i n fs) = Inr (PBool True)
   \<or> fst (download_recording E r base tc i n fs) = Inr (PBool False)"
proof (cases "planned_artifact E base r")
  case (Inl e)
  then show ?thesis by (simp add: download_recording_planned)
next
  case (Inr plan)
  obtain d f q where plan: "plan = (d, f, q)" by (cases plan)
  show ?thesis
  proof (cases "makedirs fs d")
    case (Inl e)
    then show ?thesis using Inr plan by (simp add: download_recording_planned)
  next
    case fs1: (Inr fs1)
    show ?thesis
      using Inr plan fs1 transfer_recording_values[of E r tc i d f fs1]
      by (auto simp: download_recording_planned)
  qed
qed

lemma started_transfer_cases:
  assumes "started_transfer E r out tc i fs = Some t"
  obtains d f q fs1 where "planned_artifact E out r = Inr (d, f, q)"
    and "makedirs fs d = Inr fs1" and "\<not> os_path_exists fs1 q"
    and "t = downloader E i \<lparr>dl_startTime = startTime r, dl_endTime = endTime r,
                       dl_timeCorrection = tc, dl_outputDirectory = d @ os_sep,
                       dl_fileName = f, dl_window_size = WINDOW_SIZE\<rparr>"
  using assms
  by (auto simp: started_transfer_def split: sum.splits prod.splits if_splits)

lemma transfer_destination:
  assumes "fromtimestamp (utcoffset E) (startTime r) = Inr dt"
    and "Transfer_started a \<in> set (snd (snd (download_recording E r output tc i n fs)))"
  shows "dl_outputDirectory a @ dl_fileName a
           = os_path_join output (printed_dir dt @ ''/'' @ printed_name dt (startTime r))"
proof -
  note rg = fromtimestamp_range[OF assms(1)]
  have y: "0 \<le> year dt" and dd: "0 \<le> day dt" using rg by auto
  define d where "d = os_path_join output (printed_dir dt)"
  define f where "f = printed_name dt (startTime r)"
  have plan: "planned_artifact E output r = Inr (d, f, os_path_join d f)"
    using assms(1) by (simp add: planned_artifact_cases d_def f_def)
  have d_ends: "d \<noteq> []" "last d \<noteq> CHR ''/''"
    using os_path_join_ends[OF printed_dir_ends(1,2)[OF y dd], of "output"] printed_dir_ends(3)[OF y dd]
    by (simp_all add: d_def)
  have f_ends: "f \<noteq> []" "hd f \<noteq> CHR ''/''"
    using printed_name_ends[OF y] by (simp_all add: f_def)
  have j: "d @ ''/'' @ f = os_path_join output (printed_dir dt @ ''/'' @ printed_name dt (startTime r))"
    using os_path_join_plain[OF d_ends f_ends]
          join_relative[OF printed_dir_ends[OF y dd] printed_name_ends[OF y], of "output" "startTime r"]
    by (simp add: d_def f_def)
  have "dl_outputDirectory a = d @ os_sep \<and> dl_fileName a = f"
  proof (cases "makedirs fs d")
    case (Inl e)
    then show ?thesis using assms(2) plan by (simp add: download_recording_planned)
  next
    case (Inr fs1)
    then show ?thesis using assms(2) plan
      by (cases "os_path_exists fs1 (os_path_join d f)")
         (auto simp: download_recording_planned transfer_recording_events)
  qed
  then show ?thesis using j by (simp add: os_sep_def)
qed

subsection \<open>Deleting\<close>

text \<open>
  The shape of what \<open>try_delete_recording\<close> returns and of the events it leaves.
\<close>

lemma try_attempts_shape:
  "try_attempts exec attempts = (res, evs) \<Longrightarrow>
     list_all is_request_event evs
     \<and> (res = Inr True \<or> res = Inr False \<or> (\<exists>msg. res = Inl (BaseException msg)))"
proof (induction attempts arbitrary: res evs)
  case Nil
  then show ?case by auto
next
  case (Cons a as)
  show ?case
  proof (cases "exec a")
    case None
    then show ?thesis using Cons.prems by (auto simp: is_request_event_def)
  next
    case (Some e)
    show ?thesis
    proof (cases e)
      case (Exception msg)
      obtain res' evs' where t: "try_attempts exec as = (res', evs')"
        by (cases "try_attempts exec as")
      from Cons.IH[OF t] Cons.prems Some Exception t show ?thesis
        by (auto simp: is_request_event_def)
    next
      case (BaseException msg)
      then show ?thesis using Cons.prems Some by (auto simp: is_request_event_def)
    qed
  qed
qed

lemma try_delete_off:
  "\<not> DELETE_AFTER_DOWNLOAD E \<Longrightarrow> try_delete_recording E i r = (Inr False, [Try_delete r])"
  by (simp add: try_delete_recording_def)

lemma try_delete_shape:
  assumes "try_delete_recording E i r = (res, evs)"
  shows "\<exists>reqs. evs = Try_delete r # reqs \<and> list_all is_request_event reqs
          \<and> (\<not> DELETE_AFTER_DOWNLOAD E \<longrightarrow> reqs = [] \<and> res = Inr False)
          \<and> (res = Inr True \<or> res = Inr False \<or> (\<exists>msg. res = Inl (BaseException msg)))"
proof (cases "DELETE_AFTER_DOWNLOAD E")
  case False
  then show ?thesis using assms by (auto simp: try_delete_recording_def)
next
  case True
  obtain res' evs' where t:
    "try_attempts (executeFunction E i) (delete_attempts r) = (res', evs')"
    by (cases "try_attempts (executeFunction E i) (delete_attempts r)")
  from try_attempts_shape[OF t] assms True t show ?thesis
    by (auto simp: try_delete_recording_def)
qed

lemma request_is_delete: "is_request_event ev \<Longrightarrow> is_delete_event ev"
  by (cases ev) (simp_all add: is_request_event_def is_delete_event_def)

lemma no_delete_no_request:
  "filter is_delete_event evs = [] \<Longrightarrow> filter is_request_event evs = []"
  using request_is_delete by (auto simp: filter_empty_conv)

subsection \<open>One turn of the loop, and the loop\<close>

text \<open>
  One turn by the value \<open>download_recording\<close> returned, then what a turn and the
  whole loop do to the counters and the events.
\<close>

lemma process_recording_skipped:
  "download_recording E r out tc i n fs = (Inr (PStr ''skipped''), fs', evs) \<Longrightarrow>
     process_recording E out tc n i r c fs = (None, c\<lparr>skipped := skipped c + 1\<rparr>, fs', evs)"
  by (simp add: process_recording_def)

lemma process_recording_failed:
  "download_recording E r out tc i n fs = (Inr (PBool False), fs', evs) \<Longrightarrow>
     process_recording E out tc n i r c fs = (None, c\<lparr>failed := failed c + 1\<rparr>, fs', evs)"
  by (simp add: process_recording_def)

lemma process_recording_raised:
  "download_recording E r out tc i n fs = (Inl e, fs', evs) \<Longrightarrow>
     process_recording E out tc n i r c fs = (Some e, c, fs', evs)"
  by (simp add: process_recording_def)

lemma process_recording_succeeded:
  "download_recording E r out tc i n fs = (Inr (PBool True), fs', evs) \<Longrightarrow>
     process_recording E out tc n i r c fs =
       (case try_delete_recording E i r of
          (Inl e, evs') \<Rightarrow> (Some e, c\<lparr>successful := successful c + 1\<rparr>, fs', evs @ evs')
        | (Inr del, evs') \<Rightarrow>
            (None, if del then c\<lparr>successful := successful c + 1, deleted := deleted c + 1\<rparr>
                   else c\<lparr>successful := successful c + 1\<rparr>, fs', evs @ evs'))"
  by (simp add: process_recording_def Let_def split: prod.splits sum.splits)

lemma process_recording_present:
  assumes "artifact_present E base fs r"
  shows "process_recording E base tc n i r c fs = (None, c\<lparr>skipped := skipped c + 1\<rparr>, fs, [])"
  by (simp add: process_recording_def download_recording_present[OF assms])

lemma process_recording_summary:
  assumes "process_recording E out tc n i r c fs = (res, c', fs', evs)"
  shows "(res = None \<longrightarrow>
            (successful c' = successful c + 1 \<and> skipped c' = skipped c \<and> failed c' = failed c)
          \<or> (successful c' = successful c \<and> skipped c' = skipped c + 1 \<and> failed c' = failed c)
          \<or> (successful c' = successful c \<and> skipped c' = skipped c \<and> failed c' = failed c + 1))"
    and "deleted c \<le> deleted c' \<and> deleted c' \<le> deleted c + 1"
    and "deleted c' - deleted c \<le> successful c' - successful c"
    and "filter is_delete_event evs \<noteq> [] \<longrightarrow>
            fst (download_recording E r out tc i n fs) = Inr (PBool True)
          \<and> successful c' = successful c + 1
          \<and> evs = snd (snd (download_recording E r out tc i n fs))
                  @ snd (try_delete_recording E i r)"
    and "\<not> DELETE_AFTER_DOWNLOAD E \<longrightarrow>
            deleted c' = deleted c \<and> filter is_request_event evs = []"
proof -
  obtain dres fs1 devs where d: "download_recording E r out tc i n fs = (dres, fs1, devs)"
    by (cases "download_recording E r out tc i n fs")
  have nd: "filter is_delete_event devs = []"
    using download_recording_no_delete[of E r out tc i n fs] d by simp
  have nr: "filter is_request_event devs = []"
    using nd by (rule no_delete_no_request)
  obtain tres tevs where t: "try_delete_recording E i r = (tres, tevs)"
    by (cases "try_delete_recording E i r")
  obtain reqs where reqs: "tevs = Try_delete r # reqs" "list_all is_request_event reqs"
      "\<not> DELETE_AFTER_DOWNLOAD E \<longrightarrow> reqs = [] \<and> tres = Inr False"
      "tres = Inr True \<or> tres = Inr False \<or> (\<exists>msg. tres = Inl (BaseException msg))"
    using try_delete_shape[OF t] by blast
  have tr: "filter is_request_event tevs = reqs"
    using reqs(1,2) by (simp add: is_request_event_def list_all_iff)
  consider (raised) e where "dres = Inl e" | (skip) "dres = Inr (PStr ''skipped'')"
    | (ok) "dres = Inr (PBool True)" | (bad) "dres = Inr (PBool False)"
    using download_recording_values[of E r out tc i n fs] d by auto
  then have all: "(res = None \<longrightarrow>
            (successful c' = successful c + 1 \<and> skipped c' = skipped c \<and> failed c' = failed c)
          \<or> (successful c' = successful c \<and> skipped c' = skipped c + 1 \<and> failed c' = failed c)
          \<or> (successful c' = successful c \<and> skipped c' = skipped c \<and> failed c' = failed c + 1))
      \<and> (deleted c \<le> deleted c' \<and> deleted c' \<le> deleted c + 1)
      \<and> deleted c' - deleted c \<le> successful c' - successful c
      \<and> (filter is_delete_event evs \<noteq> [] \<longrightarrow>
            dres = Inr (PBool True) \<and> successful c' = successful c + 1 \<and> evs = devs @ tevs)
      \<and> (\<not> DELETE_AFTER_DOWNLOAD E \<longrightarrow>
            deleted c' = deleted c \<and> filter is_request_event evs = [])"
  proof cases
    case raised
    then show ?thesis using assms d nd nr process_recording_raised[of E r out tc i n fs e fs1 devs c]
      by auto
  next
    case skip
    then show ?thesis using assms d nd nr process_recording_skipped[of E r out tc i n fs fs1 devs c]
      by auto
  next
    case bad
    then show ?thesis using assms d nd nr process_recording_failed[of E r out tc i n fs fs1 devs c]
      by auto
  next
    case ok
    have p: "(res, c', fs', evs) =
       (case (tres, tevs) of
          (Inl e, evs') \<Rightarrow> (Some e, c\<lparr>successful := successful c + 1\<rparr>, fs1, devs @ evs')
        | (Inr del, evs') \<Rightarrow>
            (None, if del then c\<lparr>successful := successful c + 1, deleted := deleted c + 1\<rparr>
                   else c\<lparr>successful := successful c + 1\<rparr>, fs1, devs @ evs'))"
      using assms d ok t process_recording_succeeded[of E r out tc i n fs fs1 devs c] by simp
    from reqs(4) show ?thesis
    proof (elim disjE exE)
      assume "tres = Inr True"
      then show ?thesis using p ok nr tr reqs(3) by auto
    next
      assume "tres = Inr False"
      then show ?thesis using p ok nr tr reqs(3) by auto
    next
      fix msg assume "tres = Inl (BaseException msg)"
      then show ?thesis using p ok nr tr reqs(3) by auto
    qed
  qed
  show "(res = None \<longrightarrow>
            (successful c' = successful c + 1 \<and> skipped c' = skipped c \<and> failed c' = failed c)
          \<or> (successful c' = successful c \<and> skipped c' = skipped c + 1 \<and> failed c' = failed c)
          \<or> (successful c' = successful c \<and> skipped c' = skipped c \<and> failed c' = failed c + 1))"
    using all by blast
  show "deleted c \<le> deleted c' \<and> deleted c' \<le> deleted c + 1" using all by blast
  show "deleted c' - deleted c \<le> successful c' - successful c" using all by blast
  show "filter is_delete_event evs \<noteq> [] \<longrightarrow>
            fst (download_recording E r out tc i n fs) = Inr (PBool True)
          \<and> successful c' = successful c + 1
          \<and> evs = snd (snd (download_recording E r out tc i n fs))
                  @ snd (try_delete_recording E i r)"
    using all d t by simp
  show "\<not> DELETE_AFTER_DOWNLOAD E \<longrightarrow>
            deleted c' = deleted c \<and> filter is_request_event evs = []"
    using all by blast
qed

lemma download_loop_append:
  "download_loop E out tc n i (xs @ ys) c fs =
     (case download_loop E out tc n i xs c fs of
        (Some e, c1, fs1, ev1) \<Rightarrow> (Some e, c1, fs1, ev1)
      | (None, c1, fs1, ev1) \<Rightarrow>
          (case download_loop E out tc n (i + length xs) ys c1 fs1 of
             (res, c2, fs2, ev2) \<Rightarrow> (res, c2, fs2, ev1 @ ev2)))"
proof (induction xs arbitrary: i c fs)
  case Nil
  then show ?case by (simp split: prod.splits)
next
  case (Cons x xs)
  show ?case
    by (simp add: Cons.IH split: prod.splits option.splits)
qed

lemma download_loop_snoc:
  assumes "download_loop E out tc n i xs c fs = (None, c1, fs1, ev1)"
    and "process_recording E out tc n (i + length xs) r c1 fs1 = (res2, c2, fs2, ev2)"
  shows "download_loop E out tc n i (xs @ [r]) c fs = (res2, c2, fs2, ev1 @ ev2)"
  unfolding download_loop_append assms(1)
  by (cases res2) (simp_all add: assms(2))

lemma download_loop_present:
  assumes "\<forall>r \<in> set rs. artifact_present E base fs r"
  shows "download_loop E base tc n i rs c fs
           = (None, c\<lparr>skipped := skipped c + int (length rs)\<rparr>, fs, [])"
  using assms
proof (induction rs arbitrary: i c)
  case Nil
  then show ?case by simp
next
  case (Cons r rs)
  then show ?case
    by (simp add: process_recording_present add.assoc)
qed

lemma download_loop_summary:
  "download_loop E out tc n i rs c fs = (res, c', fs', evs) \<Longrightarrow>
     (res = None \<longrightarrow> processed c' = processed c + int (length rs))
     \<and> deleted c' - deleted c \<le> successful c' - successful c
     \<and> (\<not> DELETE_AFTER_DOWNLOAD E \<longrightarrow>
            deleted c' = deleted c \<and> filter is_request_event evs = [])"
proof (induction rs arbitrary: i c fs res c' fs' evs)
  case Nil
  then show ?case by simp
next
  case (Cons r rs)
  obtain res1 c1 fs1 ev1 where p: "process_recording E out tc n i r c fs = (res1, c1, fs1, ev1)"
    by (cases "process_recording E out tc n i r c fs") auto
  note s = process_recording_summary[OF p]
  obtain res2 c2 fs2 ev2 where l:
    "download_loop E out tc n (Suc i) rs c1 fs1 = (res2, c2, fs2, ev2)"
    by (cases "download_loop E out tc n (Suc i) rs c1 fs1") auto
  note ih = Cons.IH[OF l]
  have step: "(res, c', fs', evs) =
      (case res1 of Some e \<Rightarrow> (Some e, c1, fs1, ev1) | None \<Rightarrow> (res2, c2, fs2, ev1 @ ev2))"
  proof (cases res1)
    case None
    then show ?thesis using Cons.prems by (auto simp: p l)
  next
    case (Some e)
    then show ?thesis using Cons.prems by (auto simp: p)
  qed
  show ?case
  proof (cases res1)
    case None
    then have "res = res2" "c' = c2" "evs = ev1 @ ev2" using step by simp_all
    then show ?thesis using None ih s(1,3,5) by (auto simp: processed_def)
  next
    case (Some e)
    then have "res = Some e" "c' = c1" "evs = ev1" using step by simp_all
    then show ?thesis using s(3,5) by auto
  qed
qed

lemma observed_loop:
  "observed E out tc rs fs k = Some c \<Longrightarrow>
     \<exists>fs' evs. download_loop E out tc (length rs) 1 (take k rs) zero_counters fs
                 = (None, c, fs', evs)"
  by (auto simp: observed_def split: prod.splits option.splits)

lemma processed_zero: "processed zero_counters = 0"
  by (simp add: processed_def zero_counters_def)

subsection \<open>The examples, evaluated\<close>

text \<open>
  The example runs, computed once and shared by the instances below.
\<close>

lemma example_time:
  "fromtimestamp (\<lambda>t. 7200) 1721829154
     = Inr \<lparr>year = 2024, month = 7, day = 24, hour = 15, minute = 52, second = 34\<rparr>"
  "fromtimestamp (\<lambda>t. 7200) 1721829200
     = Inr \<lparr>year = 2024, month = 7, day = 24, hour = 15, minute = 53, second = 20\<rparr>"
  by code_simp+

lemma example_time3:
  "fromtimestamp (\<lambda>t. 7200) 1721829300
     = Inr \<lparr>year = 2024, month = 7, day = 24, hour = 15, minute = 55, second = 0\<rparr>"
  by code_simp

text \<open>
  The edges of the conversion at offset 0: the first local day of year 1 raises and
  the second converts, the last second of 9999 converts and the next raises, and far
  out the platform's own failures take over.
\<close>

lemma calendar_edges:
  "fromtimestamp (\<lambda>t. 0) (- 62135596800) = Inl (Exception ''ValueError'')"
  "fromtimestamp (\<lambda>t. 0) (- 62135510401) = Inl (Exception ''ValueError'')"
  "fromtimestamp (\<lambda>t. 0) (- 62135510400)
     = Inr \<lparr>year = 1, month = 1, day = 2, hour = 0, minute = 0, second = 0\<rparr>"
  "fromtimestamp (\<lambda>t. 0) 253402300799
     = Inr \<lparr>year = 9999, month = 12, day = 31, hour = 23, minute = 59, second = 59\<rparr>"
  "fromtimestamp (\<lambda>t. 0) 253402300800 = Inl (Exception ''ValueError'')"
  "fromtimestamp (\<lambda>t. 0) 67768036191676799 = Inl (Exception ''ValueError'')"
  "fromtimestamp (\<lambda>t. 0) 67768036191676800 = Inl (Exception ''OSError'')"
  "fromtimestamp (\<lambda>t. 0) (- 67768040609740800) = Inl (Exception ''ValueError'')"
  "fromtimestamp (\<lambda>t. 0) (- 67768040609740801) = Inl (Exception ''OSError'')"
  "fromtimestamp (\<lambda>t. 0) 9223372036854775808 = Inl (Exception ''OverflowError'')"
  by code_simp+

lemma example_plans:
  assumes "utcoffset E = (\<lambda>t. 7200)"
  shows "planned_artifact E ''/videos'' \<lparr>startTime = 1721829154, endTime = e, vedio_type = v\<rparr>
     = Inr (''/videos/2024/07/24'', ''20240724_155234-1721829154.mp4'',
            ''/videos/2024/07/24/20240724_155234-1721829154.mp4'')"
    and "planned_artifact E ''/videos'' \<lparr>startTime = 1721829200, endTime = e, vedio_type = v\<rparr>
     = Inr (''/videos/2024/07/24'', ''20240724_155320-1721829200.mp4'',
            ''/videos/2024/07/24/20240724_155320-1721829200.mp4'')"
    and "planned_artifact E ''/videos'' \<lparr>startTime = 1721829300, endTime = e, vedio_type = v\<rparr>
     = Inr (''/videos/2024/07/24'', ''20240724_155500-1721829300.mp4'',
            ''/videos/2024/07/24/20240724_155500-1721829300.mp4'')"
  by (simp_all add: planned_artifact_cases assms example_time example_time3 path_eval)

lemmas run_eval = download_loop.simps process_recording_def download_recording_planned
  clip_def example_plans makedirs_def os_path_exists_def archive_def
  transfer_recording_def camera_def broken_transfer_def clean_transfer_def mixed_behaviour_def
  cancelled_behaviour_def mixed_catalog_def download_all_def
  try_delete_recording_def delete_attempts_def os_sep_def WINDOW_SIZE_def zero_counters_def
  Let_def

lemma mixed_run_2:
  "download_loop (camera flag mixed_behaviour) ''/videos'' 0 3 1
      [clip 1721829154, clip 1721829200] zero_counters archive
    = (None, \<lparr>successful = 0, failed = 1, skipped = 1, deleted = 0\<rparr>, archive,
       [Transfer_started \<lparr>dl_startTime = 1721829200, dl_endTime = 1721829230,
          dl_timeCorrection = 0, dl_outputDirectory = ''/videos/2024/07/24/'',
          dl_fileName = ''20240724_155320-1721829200.mp4'', dl_window_size = 1000\<rparr>])"
  by (simp add: run_eval)

lemma mixed_run_off:
  "download_all (camera False mixed_behaviour) ''/videos'' 0 mixed_catalog archive
    = (None, \<lparr>successful = 1, failed = 1, skipped = 1, deleted = 0\<rparr>,
       archive(''/videos/2024/07/24/20240724_155500-1721829300.mp4'' \<mapsto> File 1000),
       [Transfer_started \<lparr>dl_startTime = 1721829200, dl_endTime = 1721829230,
          dl_timeCorrection = 0, dl_outputDirectory = ''/videos/2024/07/24/'',
          dl_fileName = ''20240724_155320-1721829200.mp4'', dl_window_size = 1000\<rparr>,
        Transfer_started \<lparr>dl_startTime = 1721829300, dl_endTime = 1721829330,
          dl_timeCorrection = 0, dl_outputDirectory = ''/videos/2024/07/24/'',
          dl_fileName = ''20240724_155500-1721829300.mp4'', dl_window_size = 1000\<rparr>,
        Try_delete (clip 1721829300)])"
  by (simp add: run_eval)

lemma mixed_run_on:
  "download_all (camera True mixed_behaviour) ''/videos'' 0 mixed_catalog archive
    = (None, \<lparr>successful = 1, failed = 1, skipped = 1, deleted = 1\<rparr>,
       archive(''/videos/2024/07/24/20240724_155500-1721829300.mp4'' \<mapsto> File 1000),
       [Transfer_started \<lparr>dl_startTime = 1721829200, dl_endTime = 1721829230,
          dl_timeCorrection = 0, dl_outputDirectory = ''/videos/2024/07/24/'',
          dl_fileName = ''20240724_155320-1721829200.mp4'', dl_window_size = 1000\<rparr>,
        Transfer_started \<lparr>dl_startTime = 1721829300, dl_endTime = 1721829330,
          dl_timeCorrection = 0, dl_outputDirectory = ''/videos/2024/07/24/'',
          dl_fileName = ''20240724_155500-1721829300.mp4'', dl_window_size = 1000\<rparr>,
        Try_delete (clip 1721829300),
        Execute_function (hd (delete_attempts (clip 1721829300)))])"
  by (simp add: run_eval)

lemma cancelled_run:
  "download_all (camera False cancelled_behaviour) ''/videos'' 0 mixed_catalog archive
    = (Some (BaseException ''CancelledError''),
       \<lparr>successful = 0, failed = 0, skipped = 1, deleted = 0\<rparr>, archive,
       [Transfer_started \<lparr>dl_startTime = 1721829200, dl_endTime = 1721829230,
          dl_timeCorrection = 0, dl_outputDirectory = ''/videos/2024/07/24/'',
          dl_fileName = ''20240724_155320-1721829200.mp4'', dl_window_size = 1000\<rparr>])"
  by (simp add: run_eval)

lemma example_started:
  "started_transfer (camera flag b) (clip 1721829200) ''/videos'' 0 2 archive = Some (b 2)"
  by (simp add: started_transfer_def clip_def example_plans makedirs_def os_path_exists_def
        archive_def camera_def)

lemma steady_run_reports:
  "consume (- 1) steady_run =
     map (\<lambda>k. Percent_line ''Downloading'' k (20 - k) (5 * int k)) [0..<21]"
  by code_simp

lemma steady_run_percents:
  "map derived_percent steady_run = map (\<lambda>k. 5 * int k) [0..<21]"
  by code_simp

lemma steady_run_totals: "filter has_total steady_run = steady_run"
  by code_simp

section \<open>The claims\<close>

text \<open>
  The claims about the program, in the order of their numbers. A claim that does not
  hold as stated is followed by the input on which it fails.
\<close>

text \<open>
  C1. When the artifact of every recording of a catalog is on disk, whatever is at
  its path, each download decision is "skipped" with no transfer started and the file
  system untouched, and a run over the catalog counts every recording as skipped and
  downloads nothing.
\<close>

theorem existing_artifact_skipped:
  assumes "\<forall>r \<in> set rs. artifact_present E base fs r"
  shows "(\<forall>r \<in> set rs. download_recording E r base tc i n fs = (Inr (PStr ''skipped''), fs, []))
       \<and> download_loop E base tc n i rs c fs
           = (None, c\<lparr>skipped := skipped c + int (length rs)\<rparr>, fs, [])
       \<and> download_all E base tc rs fs
           = (None, zero_counters\<lparr>skipped := int (length rs)\<rparr>, fs, [])"
  using assms download_loop_present[OF assms]
  by (simp add: download_recording_present download_all_def zero_counters_def)

theorem existing_artifact_skipped_witness:
  "list_all (artifact_present (camera True (\<lambda>i. clean_transfer)) ''/videos'' archive)
     [clip 1721829154]
   \<and> download_all (camera True (\<lambda>i. clean_transfer)) ''/videos'' 0 [clip 1721829154] archive
       = (None, \<lparr>successful = 0, failed = 0, skipped = 1, deleted = 0\<rparr>, archive, [])"
proof -
  have h: "\<forall>r \<in> set [clip 1721829154].
      artifact_present (camera True (\<lambda>i. clean_transfer)) ''/videos'' archive r"
    by (simp add: artifact_present_def clip_def example_plans camera_def archive_def os_path_exists_def)
  from existing_artifact_skipped[OF h, of 0 1 1 zero_counters] h show ?thesis
    by (simp add: zero_counters_def)
qed

text \<open>
  C2. At every observation point of a batch, that is once the first \<open>k\<close> recordings
  have been processed, \<open>successful + skipped + failed\<close> is \<open>k\<close>; and from one
  observation point to the next exactly one of the three counters has grown, by
  exactly one. The same holds of the loop from any counters on.
\<close>

theorem counters_account:
  "(k \<le> length rs \<and> observed E out tc rs fs k = Some c \<longrightarrow> processed c = int k)
   \<and> (k < length rs \<and> observed E out tc rs fs k = Some c
          \<and> observed E out tc rs fs (Suc k) = Some c' \<longrightarrow>
          (successful c' = successful c + 1 \<and> skipped c' = skipped c \<and> failed c' = failed c)
        \<or> (successful c' = successful c \<and> skipped c' = skipped c + 1 \<and> failed c' = failed c)
        \<or> (successful c' = successful c \<and> skipped c' = skipped c \<and> failed c' = failed c + 1))
   \<and> (download_loop E out tc n i rs c0 fs = (None, c1, fs1, evs1) \<longrightarrow>
          processed c1 = processed c0 + int (length rs))"
proof (intro conjI impI)
  assume a: "k \<le> length rs \<and> observed E out tc rs fs k = Some c"
  then obtain fs' evs where
    l: "download_loop E out tc (length rs) 1 (take k rs) zero_counters fs = (None, c, fs', evs)"
    using observed_loop by blast
  from download_loop_summary[OF l] a show "processed c = int k"
    by (simp add: processed_zero)
next
  assume a: "k < length rs \<and> observed E out tc rs fs k = Some c
          \<and> observed E out tc rs fs (Suc k) = Some c'"
  then obtain fs' evs where
    l: "download_loop E out tc (length rs) 1 (take k rs) zero_counters fs = (None, c, fs', evs)"
    using observed_loop by blast
  from a obtain fs'' evs' where
    l': "download_loop E out tc (length rs) 1 (take (Suc k) rs) zero_counters fs
           = (None, c', fs'', evs')"
    using observed_loop by blast
  have t: "take (Suc k) rs = take k rs @ [rs ! k]"
    using a by (simp add: take_Suc_conv_app_nth)
  obtain res2 c2 fs2 ev2 where
    p: "process_recording E out tc (length rs) (1 + length (take k rs)) (rs ! k) c fs'
          = (res2, c2, fs2, ev2)"
    by (cases "process_recording E out tc (length rs) (1 + length (take k rs)) (rs ! k) c fs'")
       auto
  have "download_loop E out tc (length rs) 1 (take k rs @ [rs ! k]) zero_counters fs
          = (res2, c2, fs2, evs @ ev2)"
    using l p by (rule download_loop_snoc)
  then have "res2 = None" "c2 = c'" using l' t by simp_all
  with process_recording_summary(1)[OF p]
  show "(successful c' = successful c + 1 \<and> skipped c' = skipped c \<and> failed c' = failed c)
        \<or> (successful c' = successful c \<and> skipped c' = skipped c + 1 \<and> failed c' = failed c)
        \<or> (successful c' = successful c \<and> skipped c' = skipped c \<and> failed c' = failed c + 1)"
    by simp
next
  assume "download_loop E out tc n i rs c0 fs = (None, c1, fs1, evs1)"
  from download_loop_summary[OF this] show "processed c1 = processed c0 + int (length rs)"
    by simp
qed

theorem counters_account_witness:
  "2 < length mixed_catalog
   \<and> observed (camera False mixed_behaviour) ''/videos'' 0 mixed_catalog archive 2
       = Some \<lparr>successful = 0, failed = 1, skipped = 1, deleted = 0\<rparr>
   \<and> observed (camera False mixed_behaviour) ''/videos'' 0 mixed_catalog archive 3
       = Some \<lparr>successful = 1, failed = 1, skipped = 1, deleted = 0\<rparr>
   \<and> processed \<lparr>successful = 0, failed = 1, skipped = 1, deleted = 0\<rparr> = 2
   \<and> processed \<lparr>successful = 1, failed = 1, skipped = 1, deleted = 0\<rparr> = 3
   \<and> successful \<lparr>successful = 1, failed = 1, skipped = 1, deleted = 0\<rparr>
       = successful \<lparr>successful = 0, failed = 1, skipped = 1, deleted = 0\<rparr> + 1"
proof -
  have l: "2 < length mixed_catalog" by (simp add: mixed_catalog_def)
  have len: "length mixed_catalog = 3" by (simp add: mixed_catalog_def)
  have t2: "take 2 mixed_catalog = [clip 1721829154, clip 1721829200]"
    by (simp add: mixed_catalog_def)
  have t3: "take 3 mixed_catalog = mixed_catalog" by (simp add: mixed_catalog_def)
  have o2: "observed (camera False mixed_behaviour) ''/videos'' 0 mixed_catalog archive 2
       = Some \<lparr>successful = 0, failed = 1, skipped = 1, deleted = 0\<rparr>"
    unfolding observed_def len t2 mixed_run_2 by simp
  have o3: "observed (camera False mixed_behaviour) ''/videos'' 0 mixed_catalog archive 3
       = Some \<lparr>successful = 1, failed = 1, skipped = 1, deleted = 0\<rparr>"
    unfolding observed_def t3 download_all_def[symmetric] mixed_run_off by simp
  from counters_account[of 2 mixed_catalog "camera False mixed_behaviour" "''/videos''" 0 archive
      "\<lparr>successful = 0, failed = 1, skipped = 1, deleted = 0\<rparr>"] l o2
  have p2: "processed \<lparr>successful = 0, failed = 1, skipped = 1, deleted = 0\<rparr> = 2"
    by simp
  from counters_account[of 3 mixed_catalog "camera False mixed_behaviour" "''/videos''" 0 archive
      "\<lparr>successful = 1, failed = 1, skipped = 1, deleted = 0\<rparr>"] o3
  have p3: "processed \<lparr>successful = 1, failed = 1, skipped = 1, deleted = 0\<rparr> = 3"
    by (simp add: mixed_catalog_def)
  from counters_account[of 2 mixed_catalog "camera False mixed_behaviour" "''/videos''" 0 archive
      "\<lparr>successful = 0, failed = 1, skipped = 1, deleted = 0\<rparr>"
      "\<lparr>successful = 1, failed = 1, skipped = 1, deleted = 0\<rparr>"] l o2 o3
  have st: "successful \<lparr>successful = 1, failed = 1, skipped = 1, deleted = 0\<rparr>
       = successful \<lparr>successful = 0, failed = 1, skipped = 1, deleted = 0\<rparr> + 1"
    by simp
  from l o2 o3 p2 p3 st show ?thesis by blast
qed

text \<open>
  C3, as amended. When the transfer started for a recording ends by raising an
  exception of class \<open>Exception\<close>, \<open>download_recording\<close> returns \<open>False\<close>; the turn
  of the loop raises nothing and adds exactly one to \<open>failed\<close>, leaving the other
  counters as they were; and the loop goes on with the next recording from there.
\<close>

theorem transfer_exception_contained:
  assumes "started_transfer E r out tc i fs = Some t"
    and "ending t = Raises (Exception msg)"
  shows "\<exists>fs' evs.
           download_recording E r out tc i n fs = (Inr (PBool False), fs', evs)
         \<and> process_recording E out tc n i r c fs = (None, c\<lparr>failed := failed c + 1\<rparr>, fs', evs)
         \<and> download_loop E out tc n i (r # rest) c fs =
             (case download_loop E out tc n (Suc i) rest (c\<lparr>failed := failed c + 1\<rparr>) fs' of
                (res, c', fs'', evs') \<Rightarrow> (res, c', fs'', evs @ evs'))"
proof -
  from assms(1) obtain d f q fs1 where plan: "planned_artifact E out r = Inr (d, f, q)"
    and mk: "makedirs fs d = Inr fs1" and ne: "\<not> os_path_exists fs1 q"
    and t: "t = downloader E i \<lparr>dl_startTime = startTime r, dl_endTime = endTime r,
                       dl_timeCorrection = tc, dl_outputDirectory = d @ os_sep,
                       dl_fileName = f, dl_window_size = WINDOW_SIZE\<rparr>"
    by (rule started_transfer_cases)
  obtain res fs' evs where tr: "transfer_recording E r tc i d f fs1 = (res, fs', evs)"
    by (cases "transfer_recording E r tc i d f fs1")
  have "res = Inr (PBool False)"
    using tr assms(2) t by (auto simp: transfer_recording_def Let_def)
  then have dl: "download_recording E r out tc i n fs = (Inr (PBool False), fs', evs)"
    using plan mk ne tr by (simp add: download_recording_planned)
  have pr: "process_recording E out tc n i r c fs = (None, c\<lparr>failed := failed c + 1\<rparr>, fs', evs)"
    using dl by (rule process_recording_failed)
  show ?thesis using dl pr by (intro exI[of _ fs'] exI[of _ evs]) simp
qed

theorem transfer_exception_contained_witness:
  "started_transfer (camera False mixed_behaviour) (clip 1721829200) ''/videos'' 0 2 archive
     = Some (mixed_behaviour 2)
   \<and> ending (mixed_behaviour 2) = Raises (Exception ''timeout'')
   \<and> fst (process_recording (camera False mixed_behaviour) ''/videos'' 0 3 2 (clip 1721829200)
            \<lparr>successful = 0, failed = 0, skipped = 1, deleted = 0\<rparr> archive) = None
   \<and> fst (snd (process_recording (camera False mixed_behaviour) ''/videos'' 0 3 2
            (clip 1721829200) \<lparr>successful = 0, failed = 0, skipped = 1, deleted = 0\<rparr> archive))
       = \<lparr>successful = 0, failed = 1, skipped = 1, deleted = 0\<rparr>"
proof -
  have s: "started_transfer (camera False mixed_behaviour) (clip 1721829200) ''/videos'' 0 2
      archive = Some (mixed_behaviour 2)"
    by (rule example_started)
  have e: "ending (mixed_behaviour 2) = Raises (Exception ''timeout'')"
    by (simp add: mixed_behaviour_def broken_transfer_def)
  from transfer_exception_contained[OF s e, of 3
      "\<lparr>successful = 0, failed = 0, skipped = 1, deleted = 0\<rparr>" "[]"]
  obtain fs' evs where
    "process_recording (camera False mixed_behaviour) ''/videos'' 0 3 2 (clip 1721829200)
        \<lparr>successful = 0, failed = 0, skipped = 1, deleted = 0\<rparr> archive
      = (None, \<lparr>successful = 0, failed = 0, skipped = 1, deleted = 0\<rparr>
                 \<lparr>failed := failed \<lparr>successful = 0, failed = 0, skipped = 1, deleted = 0\<rparr> + 1\<rparr>,
         fs', evs)"
    by blast
  then show ?thesis using s e by simp
qed

text \<open>
  The claim as stated fails when what the streaming collaborator raises is not of
  class \<open>Exception\<close>: a cancellation raised in the second transfer leaves the loop,
  \<open>failed\<close> stays 0, and the third recording is never processed.
\<close>

theorem transfer_exception_counterexample:
  "started_transfer (camera False cancelled_behaviour) (clip 1721829200) ''/videos'' 0 2 archive
     = Some (cancelled_behaviour 2)
   \<and> ending (cancelled_behaviour 2) = Raises (BaseException ''CancelledError'')
   \<and> fst (download_all (camera False cancelled_behaviour) ''/videos'' 0 mixed_catalog archive)
       = Some (BaseException ''CancelledError'')
   \<and> failed (fst (snd (download_all (camera False cancelled_behaviour) ''/videos'' 0
                mixed_catalog archive))) = 0
   \<and> length (filter is_transfer_event
        (snd (snd (snd (download_all (camera False cancelled_behaviour) ''/videos'' 0
                mixed_catalog archive))))) = 1"
  by (simp add: example_started cancelled_run is_transfer_event_def)
     (simp add: cancelled_behaviour_def broken_transfer_def)

text \<open>
  C4. Two recordings with the same start time get the same plan (directory, file name
  and path), whatever their end times and types: the decision to skip is the same for
  both on the same file system, and a transfer started for either is given the same
  directory and file name. The plan is a function of the start time and the time zone
  of the run; evaluating it again gives the same value.
\<close>

theorem same_start_same_artifact:
  assumes "startTime r1 = startTime r2"
  shows "planned_artifact E base r1 = planned_artifact E base r2
       \<and> (fst (download_recording E r1 base tc1 i1 n1 fs) = Inr (PStr ''skipped''))
           = (fst (download_recording E r2 base tc2 i2 n2 fs) = Inr (PStr ''skipped''))
       \<and> (\<forall>a1 a2. Transfer_started a1 \<in> set (snd (snd (download_recording E r1 base tc1 i1 n1 fs)))
                 \<and> Transfer_started a2 \<in> set (snd (snd (download_recording E r2 base tc2 i2 n2 fs)))
             \<longrightarrow> dl_outputDirectory a1 = dl_outputDirectory a2 \<and> dl_fileName a1 = dl_fileName a2)"
proof -
  have p: "planned_artifact E base r1 = planned_artifact E base r2"
    using assms by (simp add: planned_artifact_def)
  have ev: "\<And>r tc i d f fs1 a.
      Transfer_started a \<in> set (snd (snd (transfer_recording E r tc i d f fs1)))
      \<Longrightarrow> dl_outputDirectory a = d @ os_sep \<and> dl_fileName a = f"
    by (auto simp: transfer_recording_events)
  show ?thesis
  proof (cases "planned_artifact E base r2")
    case (Inl e)
    then show ?thesis using p by (simp add: download_recording_planned)
  next
    case (Inr plan)
    obtain d f q where plan: "plan = (d, f, q)" by (cases plan)
    show ?thesis
    proof (cases "makedirs fs d")
      case (Inl e)
      then show ?thesis using p Inr plan by (simp add: download_recording_planned)
    next
      case fs1: (Inr fs1)
      show ?thesis
      proof (cases "os_path_exists fs1 q")
        case True
        then show ?thesis using p Inr plan fs1 by (simp add: download_recording_planned)
      next
        case False
        then show ?thesis using p Inr plan fs1 ev transfer_recording_result
          by (auto simp: download_recording_planned)
      qed
    qed
  qed
qed

theorem same_start_same_artifact_witness:
  "startTime (clip 1721829154)
     = startTime \<lparr>startTime = 1721829154, endTime = 1721830000, vedio_type = None\<rparr>
   \<and> clip 1721829154 \<noteq> \<lparr>startTime = 1721829154, endTime = 1721830000, vedio_type = None\<rparr>
   \<and> planned_artifact (camera False (\<lambda>i. clean_transfer)) ''/videos'' (clip 1721829154)
       = Inr (''/videos/2024/07/24'', ''20240724_155234-1721829154.mp4'',
              ''/videos/2024/07/24/20240724_155234-1721829154.mp4'')
   \<and> planned_artifact (camera False (\<lambda>i. clean_transfer)) ''/videos''
         \<lparr>startTime = 1721829154, endTime = 1721830000, vedio_type = None\<rparr>
       = Inr (''/videos/2024/07/24'', ''20240724_155234-1721829154.mp4'',
              ''/videos/2024/07/24/20240724_155234-1721829154.mp4'')"
proof -
  have h: "startTime (clip 1721829154)
     = startTime \<lparr>startTime = 1721829154, endTime = 1721830000, vedio_type = None\<rparr>"
    by (simp add: clip_def)
  have d: "clip 1721829154 \<noteq> \<lparr>startTime = 1721829154, endTime = 1721830000, vedio_type = None\<rparr>"
    by (simp add: clip_def)
  have v: "planned_artifact (camera False (\<lambda>i. clean_transfer)) ''/videos'' (clip 1721829154)
       = Inr (''/videos/2024/07/24'', ''20240724_155234-1721829154.mp4'',
              ''/videos/2024/07/24/20240724_155234-1721829154.mp4'')"
    by (simp add: clip_def example_plans camera_def)
  from same_start_same_artifact[OF h, of "camera False (\<lambda>i. clean_transfer)" "''/videos''"]
  have "planned_artifact (camera False (\<lambda>i. clean_transfer)) ''/videos'' (clip 1721829154)
      = planned_artifact (camera False (\<lambda>i. clean_transfer)) ''/videos''
         \<lparr>startTime = 1721829154, endTime = 1721830000, vedio_type = None\<rparr>"
    by blast
  with h d v show ?thesis by simp
qed

text \<open>
  C5, as amended. For a start time whose local time lies in the years 1000 to 9999,
  the artifact path is the output directory joined with
  \<open>YYYY/MM/DD/YYYYMMDD_HHMMSS-epochSeconds.mp4\<close>: the year in four digits, every
  other field in two, zero-padded, all read from the start time in local time, and the
  suffix the start time as an integer. Under an output directory that is not empty and
  does not end in a separator the join is the separator. It is the path tested for
  existence, and the destination every transfer started for that start time is given.
\<close>

theorem artifact_layout:
  assumes "fromtimestamp utcoff start_time = Inr dt" and "1000 \<le> year dt"
  shows "get_date_folder utcoff start_time = Inr (layout_dir dt)
       \<and> format_filename utcoff start_time = Inr (layout_name dt start_time)
       \<and> artifact_path utcoff output start_time
           = Inr (os_path_join output (layout_dir dt @ ''/'' @ layout_name dt start_time))
       \<and> (output \<noteq> [] \<and> \<not> endswith output os_sep \<longrightarrow>
            artifact_path utcoff output start_time
              = Inr (output @ ''/'' @ layout_dir dt @ ''/'' @ layout_name dt start_time))
       \<and> (\<forall>E r tc i n fs a. utcoffset E = utcoff \<and> startTime r = start_time
              \<and> Transfer_started a
                    \<in> set (snd (snd (download_recording E r output tc i n fs))) \<longrightarrow>
            dl_outputDirectory a @ dl_fileName a
              = os_path_join output (layout_dir dt @ ''/'' @ layout_name dt start_time))
       \<and> length (padded 4 (year dt)) = 4 \<and> all_digits (padded 4 (year dt))
       \<and> length (padded 2 (month dt)) = 2 \<and> all_digits (padded 2 (month dt))
       \<and> length (padded 2 (day dt)) = 2 \<and> all_digits (padded 2 (day dt))
       \<and> length (padded 2 (hour dt)) = 2 \<and> all_digits (padded 2 (hour dt))
       \<and> length (padded 2 (minute dt)) = 2 \<and> all_digits (padded 2 (minute dt))
       \<and> length (padded 2 (second dt)) = 2 \<and> all_digits (padded 2 (second dt))"
proof -
  note r = fromtimestamp_range[OF assms(1)]
  have y: "0 \<le> year dt" and d: "0 \<le> day dt" and y4: "year dt \<le> 9999" using r by auto
  note pl = printed_layout[OF assms(2) y4]
  have plain: "output \<noteq> [] \<and> \<not> endswith output os_sep \<longrightarrow>
      os_path_join output (layout_dir dt @ ''/'' @ layout_name dt start_time)
        = output @ ''/'' @ layout_dir dt @ ''/'' @ layout_name dt start_time"
    using printed_dir_ends[OF y d]
    by (auto simp: pl os_path_join_def os_sep_def startswith_sep hd_append)
  have widths: "length (padded 4 (year dt)) = 4" "length (padded 2 (month dt)) = 2"
      "length (padded 2 (day dt)) = 2" "length (padded 2 (hour dt)) = 2"
      "length (padded 2 (minute dt)) = 2" "length (padded 2 (second dt)) = 2"
    using r by (simp_all add: padded_length2 padded_length4)
  have digits: "all_digits (padded 4 (year dt))" "all_digits (padded 2 (month dt))"
      "all_digits (padded 2 (day dt))" "all_digits (padded 2 (hour dt))"
      "all_digits (padded 2 (minute dt))" "all_digits (padded 2 (second dt))"
    using r by (simp_all add: padded_digits)
  have dest: "\<forall>E r tc i n fs a. utcoffset E = utcoff \<and> startTime r = start_time
              \<and> Transfer_started a
                    \<in> set (snd (snd (download_recording E r output tc i n fs))) \<longrightarrow>
            dl_outputDirectory a @ dl_fileName a
              = os_path_join output (layout_dir dt @ ''/'' @ layout_name dt start_time)"
    using transfer_destination assms(1) unfolding pl[symmetric] by blast
  have paths: "get_date_folder utcoff start_time = Inr (layout_dir dt)"
      "format_filename utcoff start_time = Inr (layout_name dt start_time)"
      "artifact_path utcoff output start_time
         = Inr (os_path_join output (layout_dir dt @ ''/'' @ layout_name dt start_time))"
    using get_date_folder_printed[OF assms(1)] format_filename_printed[OF assms(1)]
          artifact_path_printed[OF assms(1), of "output"]
    by (simp_all add: pl)
  show ?thesis
    using plain widths digits dest paths by simp
qed

theorem artifact_layout_witness:
  "fromtimestamp (\<lambda>t. 7200) 1721829154
     = Inr \<lparr>year = 2024, month = 7, day = 24, hour = 15, minute = 52, second = 34\<rparr>
   \<and> artifact_path (\<lambda>t. 7200) ''/videos'' 1721829154
       = Inr ''/videos/2024/07/24/20240724_155234-1721829154.mp4''"
proof -
  have h: "fromtimestamp (\<lambda>t. 7200) 1721829154
     = Inr \<lparr>year = 2024, month = 7, day = 24, hour = 15, minute = 52, second = 34\<rparr>"
    by code_simp
  have y: "1000 \<le> year \<lparr>year = 2024, month = 7, day = 24, hour = 15, minute = 52,
      second = 34\<rparr>"
    by simp
  have o: "''/videos'' \<noteq> [] \<and> \<not> endswith ''/videos'' os_sep"
    by (simp add: endswith_def os_sep_def)
  have l: "''/videos'' @ ''/''
      @ layout_dir \<lparr>year = 2024, month = 7, day = 24, hour = 15, minute = 52, second = 34\<rparr>
      @ ''/''
      @ layout_name \<lparr>year = 2024, month = 7, day = 24, hour = 15, minute = 52, second = 34\<rparr>
          1721829154
      = ''/videos/2024/07/24/20240724_155234-1721829154.mp4''"
    by (simp add: layout_dir_def layout_name_def decimal_eval)
  from artifact_layout[OF h y, of "''/videos''"] o
  have "artifact_path (\<lambda>t. 7200) ''/videos'' 1721829154
      = Inr (''/videos'' @ ''/''
      @ layout_dir \<lparr>year = 2024, month = 7, day = 24, hour = 15, minute = 52, second = 34\<rparr>
      @ ''/''
      @ layout_name \<lparr>year = 2024, month = 7, day = 24, hour = 15, minute = 52, second = 34\<rparr>
          1721829154)"
    by blast
  then have "artifact_path (\<lambda>t. 7200) ''/videos'' 1721829154
       = Inr ''/videos/2024/07/24/20240724_155234-1721829154.mp4''"
    by (simp only: l)
  with h show ?thesis by blast
qed

text \<open>
  C5 as the specification states it, for every start time, fails below the year 1000,
  where the year is printed in fewer than four digits. Two hours east of Greenwich the
  start time \<open>-30610231201\<close> is 23:59:59 on 31 December 999: the folder is
  \<open>999/12/31\<close> and the file name begins \<open>9991231_\<close>, where the layout has
  \<open>0999/12/31\<close> and \<open>09991231_\<close>.
\<close>

theorem artifact_layout_counterexample:
  "fromtimestamp (\<lambda>t. 7200) (- 30610231201)
     = Inr \<lparr>year = 999, month = 12, day = 31, hour = 23, minute = 59, second = 59\<rparr>
   \<and> get_date_folder (\<lambda>t. 7200) (- 30610231201) = Inr ''999/12/31''
   \<and> format_filename (\<lambda>t. 7200) (- 30610231201) = Inr ''9991231_235959--30610231201.mp4''
   \<and> artifact_path (\<lambda>t. 7200) ''/videos'' (- 30610231201)
       = Inr ''/videos/999/12/31/9991231_235959--30610231201.mp4''
   \<and> layout_dir \<lparr>year = 999, month = 12, day = 31, hour = 23, minute = 59, second = 59\<rparr>
       = ''0999/12/31''
   \<and> layout_name \<lparr>year = 999, month = 12, day = 31, hour = 23, minute = 59, second = 59\<rparr>
         (- 30610231201)
       = ''09991231_235959--30610231201.mp4''
   \<and> artifact_path (\<lambda>t. 7200) ''/videos'' (- 30610231201)
       \<noteq> Inr (os_path_join ''/videos''
             (layout_dir \<lparr>year = 999, month = 12, day = 31, hour = 23, minute = 59,
                second = 59\<rparr>
              @ ''/''
              @ layout_name \<lparr>year = 999, month = 12, day = 31, hour = 23, minute = 59,
                  second = 59\<rparr> (- 30610231201)))"
proof -
  have h: "fromtimestamp (\<lambda>t. 7200) (- 30610231201)
     = Inr \<lparr>year = 999, month = 12, day = 31, hour = 23, minute = 59, second = 59\<rparr>"
    by code_simp
  have f: "get_date_folder (\<lambda>t. 7200) (- 30610231201) = Inr ''999/12/31''"
    by (simp add: get_date_folder_printed[OF h] printed_dir_def decimal_eval)
  have n: "format_filename (\<lambda>t. 7200) (- 30610231201)
      = Inr ''9991231_235959--30610231201.mp4''"
    by (simp add: format_filename_printed[OF h] printed_name_def decimal_eval)
  have p: "artifact_path (\<lambda>t. 7200) ''/videos'' (- 30610231201)
       = Inr ''/videos/999/12/31/9991231_235959--30610231201.mp4''"
    by (simp add: artifact_path_def artifact_dir_def f n os_path_join_def startswith_def
          endswith_def os_sep_def)
  have ld: "layout_dir \<lparr>year = 999, month = 12, day = 31, hour = 23, minute = 59,
      second = 59\<rparr> = ''0999/12/31''"
    by (simp add: layout_dir_def decimal_eval)
  have ln: "layout_name \<lparr>year = 999, month = 12, day = 31, hour = 23, minute = 59,
      second = 59\<rparr> (- 30610231201) = ''09991231_235959--30610231201.mp4''"
    by (simp add: layout_name_def decimal_eval)
  have ne: "artifact_path (\<lambda>t. 7200) ''/videos'' (- 30610231201)
       \<noteq> Inr (os_path_join ''/videos''
             (layout_dir \<lparr>year = 999, month = 12, day = 31, hour = 23, minute = 59,
                second = 59\<rparr>
              @ ''/''
              @ layout_name \<lparr>year = 999, month = 12, day = 31, hour = 23, minute = 59,
                  second = 59\<rparr> (- 30610231201)))"
    unfolding p ld ln
    by (simp add: os_path_join_def startswith_def endswith_def os_sep_def)
  from h f n p ld ln ne show ?thesis by blast
qed

text \<open>
  C6, as amended. On a response of any shape the extractors return and do not raise.
  From a response that is a sequence they return, in order, out of the entries of its
  items that are mappings: the \<open>date\<close> field of every entry whose key starts with
  \<open>search_results_\<close> and whose value is a mapping with that field; and every
  mapping-valued entry whose key starts with \<open>search_video_results_\<close> and which has
  both \<open>startTime\<close> and \<open>endTime\<close>. Every other item and entry is left out, and a
  response that is not a sequence, a bare mapping-of-mappings included, yields nothing.
\<close>

theorem extraction_from_sequences:
  "extract_dates response = Inr (sequence_entries date_fields response)
   \<and> extract_recordings response = Inr (sequence_entries recording_entries response)"
  by (cases response)
     (simp_all add: extract_dates_def extract_recordings_def isinstance_list_def py_iter_def
        sequence_entries_def extract_dates_items_eq extract_recordings_items_eq)

text \<open>
  Scenario E of the specification: an unrecognized key beside a well-formed entry.
\<close>

theorem extraction_from_sequences_witness:
  "extract_recordings
     (PList [PDict [(''unknown'', PInt 5),
                    (''search_video_results_1'',
                       PDict [(''startTime'', PInt 1721829154), (''endTime'', PInt 1721829184),
                              (''vedio_type'', PInt 2)]),
                    (''search_video_results_2'', PDict [(''startTime'', PInt 1721829200)])],
             PStr ''noise''])
   = Inr [PDict [(''startTime'', PInt 1721829154), (''endTime'', PInt 1721829184),
                 (''vedio_type'', PInt 2)]]
   \<and> extract_dates
     (PList [PDict [(''search_results_1'', PDict [(''date'', PStr ''20240724'')]),
                    (''search_results_2'', PDict [(''day'', PStr ''20240725'')]),
                    (''other'', PDict [(''date'', PStr ''20240726'')])]])
   = Inr [PStr ''20240724'']"
proof -
  have "sequence_entries recording_entries
     (PList [PDict [(''unknown'', PInt 5),
                    (''search_video_results_1'',
                       PDict [(''startTime'', PInt 1721829154), (''endTime'', PInt 1721829184),
                              (''vedio_type'', PInt 2)]),
                    (''search_video_results_2'', PDict [(''startTime'', PInt 1721829200)])],
             PStr ''noise''])
   = [PDict [(''startTime'', PInt 1721829154), (''endTime'', PInt 1721829184),
                 (''vedio_type'', PInt 2)]]"
    by (simp add: sequence_entries_def mapping_entries_def recording_entries_def startswith_def)
  moreover have "sequence_entries date_fields
     (PList [PDict [(''search_results_1'', PDict [(''date'', PStr ''20240724'')]),
                    (''search_results_2'', PDict [(''day'', PStr ''20240725'')]),
                    (''other'', PDict [(''date'', PStr ''20240726'')])]])
   = [PStr ''20240724'']"
    by (simp add: sequence_entries_def mapping_entries_def date_fields_def startswith_def)
  ultimately show ?thesis
    using extraction_from_sequences by simp
qed

text \<open>
  The claim as stated fails on a response that is itself a mapping-of-mappings: it has
  a matching entry with a \<open>date\<close> field, and the extractor returns nothing.
\<close>

theorem extraction_mapping_counterexample:
  "extract_dates (PDict [(''search_results_1'', PDict [(''date'', PStr ''20240724'')])]) = Inr []
   \<and> any_shape_entries date_fields
        (PDict [(''search_results_1'', PDict [(''date'', PStr ''20240724'')])])
       = [PStr ''20240724'']"
  by (simp add: extract_dates_def isinstance_list_def any_shape_entries_def date_fields_def
        startswith_def)

text \<open>
  C7, as amended. A percentage line is printed for an event exactly when its total is
  positive and its derived percentage is a multiple of 5 other than \<open>last_percent\<close>,
  which is the percentage printed last (\<open>- 1\<close> before the first line): the line
  shows the derived percentage and \<open>last_percent\<close> takes it, and no other event
  changes \<open>last_percent\<close>. So every percentage printed is a multiple of 5, and over
  a transfer whose derived percentages never decrease and stay between 0 and 100 at
  most 21 percentage lines are printed: one for each of 0, 5, ..., 100.
\<close>

theorem percent_lines_policy:
  "((\<exists>line. fst (report_status last_percent st) = Some line \<and> is_percent_line line)
      = (has_total st \<and> derived_percent st \<noteq> last_percent \<and> derived_percent st mod 5 = 0))
   \<and> (\<forall>line p. fst (report_status last_percent st) = Some line \<and> percent_shown line = Some p
         \<longrightarrow> p = derived_percent st \<and> snd (report_status last_percent st) = p)
   \<and> ((\<forall>line. fst (report_status last_percent st) = Some line \<longrightarrow> \<not> is_percent_line line)
         \<longrightarrow> snd (report_status last_percent st) = last_percent)
   \<and> (\<forall>line \<in> set (consume last_percent evs). \<forall>p. percent_shown line = Some p \<longrightarrow> p mod 5 = 0)
   \<and> (sorted (map derived_percent (filter has_total evs))
        \<and> (\<forall>st \<in> set evs. has_total st \<longrightarrow> 0 \<le> derived_percent st \<and> derived_percent st \<le> 100)
        \<longrightarrow> length (filter is_percent_line (consume (- 1) evs)) \<le> 21)"
proof (intro conjI)
  show "(\<exists>line. fst (report_status last_percent st) = Some line \<and> is_percent_line line)
      = (has_total st \<and> derived_percent st \<noteq> last_percent \<and> derived_percent st mod 5 = 0)"
    by (auto simp: report_status_cases)
  show "\<forall>line p. fst (report_status last_percent st) = Some line \<and> percent_shown line = Some p
         \<longrightarrow> p = derived_percent st \<and> snd (report_status last_percent st) = p"
    by (auto simp: report_status_cases split: if_splits)
  show "(\<forall>line. fst (report_status last_percent st) = Some line \<longrightarrow> \<not> is_percent_line line)
         \<longrightarrow> snd (report_status last_percent st) = last_percent"
    by (auto simp: report_status_cases split: if_splits)
  show "\<forall>line \<in> set (consume last_percent evs). \<forall>p. percent_shown line = Some p \<longrightarrow> p mod 5 = 0"
    using percent_lines_multiples by blast
  show "sorted (map derived_percent (filter has_total evs))
        \<and> (\<forall>st \<in> set evs. has_total st \<longrightarrow> 0 \<le> derived_percent st \<and> derived_percent st \<le> 100)
        \<longrightarrow> length (filter is_percent_line (consume (- 1) evs)) \<le> 21"
  proof
    assume a: "sorted (map derived_percent (filter has_total evs))
        \<and> (\<forall>st \<in> set evs. has_total st \<longrightarrow> 0 \<le> derived_percent st \<and> derived_percent st \<le> 100)"
    then have "sorted (- 1 # map derived_percent (filter has_total evs))"
      by (auto simp: order.trans[of "- 1" 0])
    moreover have "\<forall>st \<in> set evs. has_total st \<longrightarrow> derived_percent st \<le> 100"
      using a by blast
    ultimately have "int (length (filter is_percent_line (consume (- 1) evs))) \<le> 20 - (- 1) div 5"
      by (intro percent_lines_bound) simp_all
    then show "length (filter is_percent_line (consume (- 1) evs)) \<le> 21" by simp
  qed
qed

theorem percent_lines_policy_witness:
  "sorted (map derived_percent (filter has_total steady_run))
   \<and> list_all (\<lambda>st. has_total st \<and> 0 \<le> derived_percent st \<and> derived_percent st \<le> 100) steady_run
   \<and> length (filter is_percent_line (consume (- 1) steady_run)) \<le> 21"
proof -
  have p: "map derived_percent steady_run = map (\<lambda>k. 5 * int k) [0..<21]"
    by (rule steady_run_percents)
  have s: "sorted (map derived_percent (filter has_total steady_run))"
    unfolding steady_run_totals p by (simp add: sorted_iff_nth_mono)
  have "list_all (\<lambda>x. 0 \<le> x \<and> x \<le> 100) (map derived_percent steady_run)"
    unfolding p by (simp add: list_all_iff)
  then have r: "list_all (\<lambda>st. 0 \<le> derived_percent st \<and> derived_percent st \<le> 100) steady_run"
    by (simp add: list_all_iff)
  have t: "list_all has_total steady_run"
    using steady_run_totals by (metis Ball_set filter_id_conv)
  from percent_lines_policy[of "- 1" "hd steady_run" steady_run] s r
  have "length (filter is_percent_line (consume (- 1) steady_run)) \<le> 21"
    by (simp add: list_all_iff)
  with s r t show ?thesis by (simp add: list_all_iff)
qed

text \<open>
  The claim as stated fails on a transfer of 100 seconds reported every 5 seconds: all
  its events have a positive total, and 21 percentage lines are printed, not at most 20.
\<close>

theorem percent_lines_counterexample:
  "list_all has_total steady_run
   \<and> length (filter is_percent_line (consume (- 1) steady_run)) = 21"
proof -
  have "list_all has_total steady_run"
    using steady_run_totals by (metis Ball_set filter_id_conv)
  then show ?thesis by (simp add: steady_run_reports)
qed

text \<open>
  C8, as amended. For a sequence of events none of which has a positive total, one
  line is printed for every event whose action label is not \<open>Downloading\<close>: the
  label of that event, whether or not it differs from the label before. No percentage
  is printed for such events.
\<close>

theorem indeterminate_reports:
  assumes "\<forall>st \<in> set evs. \<not> has_total st"
  shows "consume last_percent evs
           = map Action_line (filter (\<lambda>a. a \<noteq> ''Downloading'') (map currentAction evs))
       \<and> filter is_percent_line (consume last_percent evs) = []"
  using consume_no_total[OF assms, of last_percent]
  by (simp add: filter_empty_conv)

theorem indeterminate_reports_witness:
  "list_all (\<lambda>st. \<not> has_total st) retrying_twice
   \<and> consume (- 1) retrying_twice = [Action_line ''Retrying'', Action_line ''Retrying'']"
proof -
  have h: "\<forall>st \<in> set retrying_twice. \<not> has_total st"
    by (simp add: retrying_twice_def has_total_def dict_get_def)
  from indeterminate_reports[OF h, of "- 1"] h show ?thesis
    by (simp add: retrying_twice_def list_all_iff)
qed

text \<open>
  The claim as stated fails on a retry announced twice: both events have total 0 and
  the same label, and the second is reported all the same.
\<close>

theorem indeterminate_reports_counterexample:
  "list_all (\<lambda>st. total st = Some 0) retrying_twice
   \<and> \<not> reports_only_on_change None (- 1) retrying_twice"
  by (simp add: retrying_twice_def report_status_def dict_get_def)

text \<open>
  C9, as amended. With the delete flag off, \<open>try_delete_recording\<close> is still entered
  after every successful download, but it returns \<open>False\<close> at once and sends no
  request to the camera; so over a batch no request is sent and \<open>deleted\<close> keeps its
  value, 0 at every observation point, also when downloads succeed.
\<close>

theorem delete_flag_off:
  assumes "\<not> DELETE_AFTER_DOWNLOAD E"
  shows "try_delete_recording E i r = (Inr False, [Try_delete r])
       \<and> (\<forall>res c' fs' evs. download_loop E out tc n i rs c fs = (res, c', fs', evs) \<longrightarrow>
             deleted c' = deleted c \<and> filter is_request_event evs = [])
       \<and> (\<forall>k c'. observed E out tc rs fs k = Some c' \<longrightarrow> deleted c' = 0)"
proof (intro conjI allI impI)
  show "try_delete_recording E i r = (Inr False, [Try_delete r])"
    using assms by (rule try_delete_off)
next
  fix res c' fs' evs
  assume "download_loop E out tc n i rs c fs = (res, c', fs', evs)"
  from download_loop_summary[OF this] assms
  show "deleted c' = deleted c" "filter is_request_event evs = []" by simp_all
next
  fix k c'
  assume "observed E out tc rs fs k = Some c'"
  then obtain fs' evs where
    "download_loop E out tc (length rs) 1 (take k rs) zero_counters fs = (None, c', fs', evs)"
    using observed_loop by blast
  from download_loop_summary[OF this] assms show "deleted c' = 0"
    by (simp add: zero_counters_def)
qed

theorem delete_flag_off_witness:
  "\<not> DELETE_AFTER_DOWNLOAD (camera False mixed_behaviour)
   \<and> successful (fst (snd (download_all (camera False mixed_behaviour) ''/videos'' 0
        mixed_catalog archive))) = 1
   \<and> deleted (fst (snd (download_all (camera False mixed_behaviour) ''/videos'' 0
        mixed_catalog archive))) = 0
   \<and> filter is_request_event (snd (snd (snd (download_all (camera False mixed_behaviour)
        ''/videos'' 0 mixed_catalog archive)))) = []"
proof -
  have h: "\<not> DELETE_AFTER_DOWNLOAD (camera False mixed_behaviour)"
    by (simp add: camera_def)
  obtain res c' fs' evs where
    l: "download_loop (camera False mixed_behaviour) ''/videos'' 0 (length mixed_catalog) 1
          mixed_catalog zero_counters archive = (res, c', fs', evs)"
    by (cases "download_loop (camera False mixed_behaviour) ''/videos'' 0 (length mixed_catalog) 1
          mixed_catalog zero_counters archive") auto
  from delete_flag_off[OF h, of 1 "clip 0" "''/videos''" 0 "length mixed_catalog" mixed_catalog
      zero_counters archive] l
  have "deleted c' = deleted zero_counters" "filter is_request_event evs = []" by blast+
  then have "deleted (fst (snd (download_all (camera False mixed_behaviour) ''/videos'' 0
        mixed_catalog archive))) = 0"
    and "filter is_request_event (snd (snd (snd (download_all (camera False mixed_behaviour)
        ''/videos'' 0 mixed_catalog archive)))) = []"
    using l by (simp_all add: download_all_def zero_counters_def)
  then show ?thesis using h by (simp add: mixed_run_off)
qed

text \<open>
  The claim as stated fails on the mixed catalog with the flag off: after the third
  recording has downloaded, \<open>try_delete_recording\<close> is entered for it.
\<close>

theorem delete_flag_off_counterexample:
  "\<not> DELETE_AFTER_DOWNLOAD (camera False mixed_behaviour)
   \<and> Try_delete (clip 1721829300)
       \<in> set (snd (snd (snd (download_all (camera False mixed_behaviour) ''/videos'' 0
                 mixed_catalog archive))))"
  by (simp add: mixed_run_off) (simp add: camera_def)

text \<open>
  C10. At every observation point of a batch, and in whatever state the loop ends,
  \<open>deleted \<le> successful\<close>. In one turn of the loop \<open>deleted\<close> grows by at most one;
  if the turn enters \<open>try_delete_recording\<close> or sends a request, then the download of
  that turn returned \<open>True\<close>, \<open>successful\<close> has grown by one, and the events of the
  deletion, which begin with the entry for that same recording, follow those of the
  download, among which there is none of deletion. A run over recordings whose
  artifacts are all on disk has no events at all and leaves \<open>deleted\<close> as it was,
  whatever the delete flag.
\<close>

theorem deletion_follows_success:
  "(\<forall>k c'. observed E out tc rs fs k = Some c' \<longrightarrow> deleted c' \<le> successful c')
   \<and> (\<forall>res c' fs' evs. deleted c \<le> successful c
          \<and> download_loop E out tc n i rs c fs = (res, c', fs', evs) \<longrightarrow>
          deleted c' \<le> successful c')
   \<and> (\<forall>res c' fs' evs. process_recording E out tc n i r c fs = (res, c', fs', evs) \<longrightarrow>
          deleted c \<le> deleted c' \<and> deleted c' \<le> deleted c + 1
        \<and> (filter is_delete_event evs \<noteq> [] \<longrightarrow>
              fst (download_recording E r out tc i n fs) = Inr (PBool True)
            \<and> successful c' = successful c + 1
            \<and> evs = snd (snd (download_recording E r out tc i n fs))
                    @ snd (try_delete_recording E i r)
            \<and> filter is_delete_event (snd (snd (download_recording E r out tc i n fs))) = []
            \<and> hd (snd (try_delete_recording E i r)) = Try_delete r))
   \<and> ((\<forall>r \<in> set rs. artifact_present E out fs r) \<longrightarrow>
          snd (snd (snd (download_loop E out tc n i rs c fs))) = []
        \<and> deleted (fst (snd (download_loop E out tc n i rs c fs))) = deleted c)"
proof (intro conjI allI impI)
  fix k c'
  assume "observed E out tc rs fs k = Some c'"
  then obtain fs' evs where
    "download_loop E out tc (length rs) 1 (take k rs) zero_counters fs = (None, c', fs', evs)"
    using observed_loop by blast
  from download_loop_summary[OF this] show "deleted c' \<le> successful c'"
    by (simp add: zero_counters_def)
next
  fix res c' fs' evs
  assume a: "deleted c \<le> successful c \<and> download_loop E out tc n i rs c fs = (res, c', fs', evs)"
  then have "download_loop E out tc n i rs c fs = (res, c', fs', evs)" by simp
  from download_loop_summary[OF this] a show "deleted c' \<le> successful c'" by simp
next
  fix res c' fs' evs
  assume p: "process_recording E out tc n i r c fs = (res, c', fs', evs)"
  note s = process_recording_summary[OF p]
  show "deleted c \<le> deleted c'" "deleted c' \<le> deleted c + 1" using s(2) by simp_all
  assume d: "filter is_delete_event evs \<noteq> []"
  show "fst (download_recording E r out tc i n fs) = Inr (PBool True)"
    "successful c' = successful c + 1"
    "evs = snd (snd (download_recording E r out tc i n fs)) @ snd (try_delete_recording E i r)"
    using s(4) d by simp_all
  show "filter is_delete_event (snd (snd (download_recording E r out tc i n fs))) = []"
    by (rule download_recording_no_delete)
  obtain tres tevs where t: "try_delete_recording E i r = (tres, tevs)"
    by (cases "try_delete_recording E i r")
  from try_delete_shape[OF t] t show "hd (snd (try_delete_recording E i r)) = Try_delete r"
    by auto
next
  assume a: "\<forall>r \<in> set rs. artifact_present E out fs r"
  show "snd (snd (snd (download_loop E out tc n i rs c fs))) = []"
    "deleted (fst (snd (download_loop E out tc n i rs c fs))) = deleted c"
    by (simp_all add: download_loop_present[OF a])
qed

theorem deletion_follows_success_witness:
  "download_all (camera True mixed_behaviour) ''/videos'' 0 mixed_catalog archive
    = (None, \<lparr>successful = 1, failed = 1, skipped = 1, deleted = 1\<rparr>,
       archive(''/videos/2024/07/24/20240724_155500-1721829300.mp4'' \<mapsto> File 1000),
       [Transfer_started \<lparr>dl_startTime = 1721829200, dl_endTime = 1721829230,
          dl_timeCorrection = 0, dl_outputDirectory = ''/videos/2024/07/24/'',
          dl_fileName = ''20240724_155320-1721829200.mp4'', dl_window_size = 1000\<rparr>,
        Transfer_started \<lparr>dl_startTime = 1721829300, dl_endTime = 1721829330,
          dl_timeCorrection = 0, dl_outputDirectory = ''/videos/2024/07/24/'',
          dl_fileName = ''20240724_155500-1721829300.mp4'', dl_window_size = 1000\<rparr>,
        Try_delete (clip 1721829300),
        Execute_function (hd (delete_attempts (clip 1721829300)))])
   \<and> deleted zero_counters \<le> successful zero_counters
   \<and> deleted \<lparr>successful = 1, failed = 1, skipped = 1, deleted = 1\<rparr>
       \<le> successful \<lparr>successful = 1, failed = 1, skipped = 1, deleted = 1\<rparr>
   \<and> list_all (artifact_present (camera True mixed_behaviour) ''/videos'' archive)
        [clip 1721829154]
   \<and> snd (snd (snd (download_loop (camera True mixed_behaviour) ''/videos'' 0 1 1
        [clip 1721829154] zero_counters archive))) = []"
proof -
  have z: "deleted zero_counters \<le> successful zero_counters"
    by (simp add: zero_counters_def)
  have l: "download_loop (camera True mixed_behaviour) ''/videos'' 0 (length mixed_catalog) 1
      mixed_catalog zero_counters archive
    = (None, \<lparr>successful = 1, failed = 1, skipped = 1, deleted = 1\<rparr>,
       archive(''/videos/2024/07/24/20240724_155500-1721829300.mp4'' \<mapsto> File 1000),
       [Transfer_started \<lparr>dl_startTime = 1721829200, dl_endTime = 1721829230,
          dl_timeCorrection = 0, dl_outputDirectory = ''/videos/2024/07/24/'',
          dl_fileName = ''20240724_155320-1721829200.mp4'', dl_window_size = 1000\<rparr>,
        Transfer_started \<lparr>dl_startTime = 1721829300, dl_endTime = 1721829330,
          dl_timeCorrection = 0, dl_outputDirectory = ''/videos/2024/07/24/'',
          dl_fileName = ''20240724_155500-1721829300.mp4'', dl_window_size = 1000\<rparr>,
        Try_delete (clip 1721829300),
        Execute_function (hd (delete_attempts (clip 1721829300)))])"
    using mixed_run_on by (simp add: download_all_def)
  have a: "\<forall>r \<in> set [clip 1721829154].
      artifact_present (camera True mixed_behaviour) ''/videos'' archive r"
    by (simp add: artifact_present_def clip_def example_plans camera_def archive_def
          os_path_exists_def)
  from deletion_follows_success[of "camera True mixed_behaviour" "''/videos''" 0 mixed_catalog
      archive zero_counters "length mixed_catalog" 1 "clip 0"] z l
  have le: "deleted \<lparr>successful = 1, failed = 1, skipped = 1, deleted = 1\<rparr>
       \<le> successful \<lparr>successful = 1, failed = 1, skipped = 1, deleted = 1\<rparr>"
    by blast
  from deletion_follows_success[of "camera True mixed_behaviour" "''/videos''" 0
      "[clip 1721829154]" archive zero_counters 1 1 "clip 0"] a
  have e: "snd (snd (snd (download_loop (camera True mixed_behaviour) ''/videos'' 0 1 1
        [clip 1721829154] zero_counters archive))) = []"
    by blast
  from mixed_run_on z le a e show ?thesis by (simp add: list_all_iff)
qed

end
